theory Spec2Isabelle
  imports Main
begin

section \<open>The diagram model\<close>

text \<open>
  Modelled from the spec: the declarations of \<open>Diagram\<close>, \<open>DBTable\<close>, \<open>DBField\<close>,
  \<open>DBIndex\<close> and \<open>DBRelationship\<close> (imported by \<open>export-sql-script.ts\<close> from
  \<open>../../domain/diagram\<close>) are not part of the sources at hand. The records below carry
  the attributes that \<open>export-sql-script.ts\<close> reads, typed as section 3 of the specification
  describes them: identifiers, names, types and defaults are strings, the length, precision
  and scale are optional integers (of magnitude at most \<open>2^53\<close>, which a JavaScript number
  holds exactly), the flags are booleans, and the two collections of a diagram are optional
  (the code tests \<open>!tables\<close> and uses \<open>relationships?.\<close>).

  Record fields are prefixed where the attribute name (\<open>id\<close>, \<open>name\<close>, \<open>type\<close>,
  \<open>default\<close>, \<open>unique\<close>, \<open>fields\<close>, \<open>indexes\<close>) is taken in HOL or shared between two records.
\<close>

record DBField =
  f_id :: string
  f_name :: string
  f_type :: string
  characterMaximumLength :: "int option"
  precision :: "int option"
  scale :: "int option"
  nullable :: bool
  f_default :: "string option"
  primaryKey :: bool

record DBIndex =
  i_name :: string
  i_unique :: bool
  fieldIds :: "string list"

record DBTable =
  t_id :: string
  t_name :: string
  isView :: bool
  t_fields :: "DBField list"
  t_indexes :: "DBIndex list"

record DBRelationship =
  r_name :: string
  sourceTableId :: string
  sourceFieldId :: string
  targetTableId :: string
  targetFieldId :: string

record Diagram =
  tables :: "DBTable list option"
  relationships :: "DBRelationship list option"

section \<open>JavaScript values the code relies on\<close>

subsection \<open>Truthiness\<close>

text \<open>
  \<open>if (x)\<close> on an optional number holds when the number is present and not zero; on an
  optional string, when the string is present and not empty.
\<close>

definition truthy_num :: "int option \<Rightarrow> bool" where
  "truthy_num x = (case x of None \<Rightarrow> False | Some n \<Rightarrow> n \<noteq> 0)"

definition truthy_str :: "string option \<Rightarrow> bool" where
  "truthy_str x = (case x of None \<Rightarrow> False | Some s \<Rightarrow> s \<noteq> [])"

subsection \<open>Numbers in template strings\<close>

text \<open>
  \<open>`${n}`\<close> for an integer \<open>n\<close> of magnitude at most \<open>2^53\<close>, the integers that a
  JavaScript number holds exactly, is its decimal numeral, with a leading minus sign when
  it is negative. Integers beyond that range are outside this model: JavaScript prints
  them with the shortest digits that read back as the same number, and in exponent form
  from \<open>10^21\<close> on. The examples below use small numbers only.
\<close>

definition digit_char :: "nat \<Rightarrow> char" where
  "digit_char d = char_of (48 + d)"

fun show_nat :: "nat \<Rightarrow> string" where
  "show_nat n = (if n < 10 then [digit_char n] else show_nat (n div 10) @ [digit_char (n mod 10)])"

definition show_int :: "int \<Rightarrow> string" where
  "show_int i = (if i < 0 then CHR ''-'' # show_nat (nat (- i)) else show_nat (nat i))"

definition show_num :: "int option \<Rightarrow> string" where
  "show_num x = (case x of None \<Rightarrow> ''undefined'' | Some n \<Rightarrow> show_int n)"

subsection \<open>\<open>String.prototype.toLowerCase\<close>\<close>

text \<open>
  Only the letters \<open>A\<close> to \<open>Z\<close> are mapped. A string is a list of bytes here; no character
  outside ASCII lower-cases to one of the letters that occur in the keys looked up below,
  so leaving them alone gives the same lookup result.
\<close>

definition lower_char :: "char \<Rightarrow> char" where
  "lower_char c =
     (let n = (of_char c :: nat) in if 65 \<le> n \<and> n \<le> 90 then char_of (n + 32) else c)"

definition toLowerCase :: "string \<Rightarrow> string" where
  "toLowerCase s = map lower_char s"

subsection \<open>\<open>Array.prototype.join\<close> and \<open>find\<close>\<close>

fun join :: "string \<Rightarrow> string list \<Rightarrow> string" where
  "join sep [] = []"
| "join sep [x] = x"
| "join sep (x # y # ys) = x @ sep @ join sep (y # ys)"

text \<open>
  An object reference into the diagram is the position of the object in the array that owns
  it. \<open>find_index\<close> is \<open>Array.prototype.find\<close> returning the position of the first match.
\<close>

fun find_index :: "('a \<Rightarrow> bool) \<Rightarrow> 'a list \<Rightarrow> nat option" where
  "find_index P [] = None"
| "find_index P (x # xs) =
     (if P x then Some 0 else (case find_index P xs of None \<Rightarrow> None | Some i \<Rightarrow> Some (Suc i)))"


definition show_str :: "string option \<Rightarrow> string" where
  "show_str x = (case x of None \<Rightarrow> ''undefined'' | Some s \<Rightarrow> s)"

text \<open>
  \<open>.filter(Boolean)\<close> on an array of strings and \<open>undefined\<close>: it drops \<open>undefined\<close>
  and the empty string, the two falsy values such an array can hold.
\<close>

fun filter_Boolean :: "string option list \<Rightarrow> string list" where
  "filter_Boolean [] = []"
| "filter_Boolean (None # xs) = filter_Boolean xs"
| "filter_Boolean (Some s # xs) = (if s = [] then filter_Boolean xs else s # filter_Boolean xs)"

section \<open>The type unifier\<close>

subsection \<open>\<open>getMySQLDataTypeSize\<close>\<close>

text \<open>
  The size of a type is read by property access on an object literal,
  \<open>{tinyint: 1, ...}[type.toLowerCase()] || 0\<close>. Property access also finds what the literal
  inherits from \<open>Object.prototype\<close>. Of the inherited names, two are all lower case and so
  can be the result of \<open>toLowerCase\<close>: \<open>constructor\<close>, whose value is the function
  \<open>Object\<close>, and \<open>__proto__\<close>, whose value is the object \<open>Object.prototype\<close>. Both are
  truthy, so \<open>|| 0\<close> keeps them. Every other key gives \<open>undefined\<close>, hence \<open>0\<close>.
\<close>

datatype js_size = Num nat | ObjectConstructor | ObjectPrototype

definition getMySQLDataTypeSize :: "string \<Rightarrow> js_size" where
  "getMySQLDataTypeSize type =
     (let key = toLowerCase type in
      if key = ''tinyint'' then Num 1
      else if key = ''smallint'' then Num 2
      else if key = ''mediumint'' then Num 3
      else if key = ''integer'' then Num 4
      else if key = ''bigint'' then Num 8
      else if key = ''float'' then Num 4
      else if key = ''double'' then Num 8
      else if key = ''decimal'' then Num 16
      else if key = ''numeric'' then Num 16
      else if key = ''constructor'' then ObjectConstructor
      else if key = ''__proto__'' then ObjectPrototype
      else Num 0)"

text \<open>
  \<open>a > b\<close> on such values: two numbers compare as numbers. An object is first converted
  to a primitive, which is its string form; a string against a number is converted to a
  number, here \<open>NaN\<close>, and every comparison with \<open>NaN\<close> is false. Two strings compare by
  code units.
\<close>

definition toPrimitive :: "js_size \<Rightarrow> string" where
  "toPrimitive v =
     (case v of
        Num n \<Rightarrow> show_nat n
      | ObjectConstructor \<Rightarrow> ''function Object() { [native code] }''
      | ObjectPrototype \<Rightarrow> ''[object Object]'')"

fun str_less :: "string \<Rightarrow> string \<Rightarrow> bool" where
  "str_less [] [] = False"
| "str_less [] (y # ys) = True"
| "str_less (x # xs) [] = False"
| "str_less (x # xs) (y # ys) =
     (if (of_char x :: nat) < of_char y then True
      else if (of_char y :: nat) < of_char x then False
      else str_less xs ys)"

definition js_gt :: "js_size \<Rightarrow> js_size \<Rightarrow> bool" where
  "js_gt a b =
     (case (a, b) of
        (Num x, Num y) \<Rightarrow> y < x
      | (Num x, _) \<Rightarrow> False
      | (_, Num y) \<Rightarrow> False
      | (_, _) \<Rightarrow> str_less (toPrimitive b) (toPrimitive a))"

subsection \<open>\<open>alignForeignKeyDataTypes\<close>\<close>

text \<open>
  The diagram is a tree of objects: the tables array owns its tables, each table owns its
  fields. A reference to a table is its position in \<open>tables\<close>, a reference to a field is
  the position of its table and its own position in that table's \<open>fields\<close>. The only
  mutation in the file is the assignment to \<open>field.type\<close>, modelled by \<open>set_field_type\<close>.

  \<open>tableMap\<close> is filled by \<open>tableMap.set(table.id, table)\<close> in table order, so a later
  table replaces an earlier one with the same id. The positions it holds lie within the
  tables array and the positions \<open>find_index\<close> returns lie within the fields array
  (lemmas \<open>tableMap_Some\<close> and \<open>find_index_Some\<close> below), so every read \<open>ts ! i\<close> of
  the unifier is in range.
\<close>

fun build_tableMap :: "DBTable list \<Rightarrow> nat \<Rightarrow> (string \<rightharpoonup> nat) \<Rightarrow> (string \<rightharpoonup> nat)" where
  "build_tableMap [] i m = m"
| "build_tableMap (table # ts) i m = build_tableMap ts (Suc i) (m(t_id table \<mapsto> i))"

definition set_field_type :: "DBTable list \<Rightarrow> nat \<Rightarrow> nat \<Rightarrow> string \<Rightarrow> DBTable list" where
  "set_field_type ts ti fi ty =
     ts[ti := (ts ! ti)\<lparr>t_fields := (t_fields (ts ! ti))[fi := (t_fields (ts ! ti) ! fi)\<lparr>f_type := ty\<rparr>]\<rparr>]"

definition get_field_type :: "DBTable list \<Rightarrow> nat \<Rightarrow> nat \<Rightarrow> string" where
  "get_field_type ts ti fi = f_type (t_fields (ts ! ti) ! fi)"

text \<open>The body of \<open>relationships.forEach\<close>, lines 167 to 195.\<close>

definition align_relationship ::
  "(string \<rightharpoonup> nat) \<Rightarrow> DBTable list \<Rightarrow> DBRelationship \<Rightarrow> DBTable list" where
  "align_relationship tableMap ts relationship =
     (case tableMap (sourceTableId relationship) of
        None \<Rightarrow> ts
      | Some sourceTable \<Rightarrow>
     (case tableMap (targetTableId relationship) of
        None \<Rightarrow> ts
      | Some targetTable \<Rightarrow>
     (case find_index (\<lambda>field. f_id field = sourceFieldId relationship)
             (t_fields (ts ! sourceTable)) of
        None \<Rightarrow> ts
      | Some sourceField \<Rightarrow>
     (case find_index (\<lambda>field. f_id field = targetFieldId relationship)
             (t_fields (ts ! targetTable)) of
        None \<Rightarrow> ts
      | Some targetField \<Rightarrow>
        (let sourceType = get_field_type ts sourceTable sourceField;
             targetType = get_field_type ts targetTable targetField;
             sourceSize = getMySQLDataTypeSize sourceType;
             targetSize = getMySQLDataTypeSize targetType
         in if js_gt sourceSize targetSize
            then set_field_type ts targetTable targetField sourceType
            else if js_gt targetSize sourceSize
            then set_field_type ts sourceTable sourceField targetType
            else ts)))))"

definition alignForeignKeyDataTypes :: "Diagram \<Rightarrow> Diagram" where
  "alignForeignKeyDataTypes diagram =
     (case tables diagram of
        None \<Rightarrow> diagram
      | Some ts \<Rightarrow>
          if ts = [] then diagram
          else (case relationships diagram of
                  None \<Rightarrow> diagram
                | Some rs \<Rightarrow>
                    if rs = [] then diagram
                    else diagram\<lparr>tables :=
                           Some (foldl (align_relationship (build_tableMap ts 0 Map.empty)) ts rs)\<rparr>))"

section \<open>The DDL emitter\<close>

text \<open>The body of \<open>table.fields.forEach\<close>, lines 31 to 65; \<open>len\<close> is \<open>table.fields.length\<close>.\<close>

definition emit_field :: "nat \<Rightarrow> string \<Rightarrow> nat \<times> DBField \<Rightarrow> string" where
  "emit_field len sqlScript p =
     (case p of (index, field) \<Rightarrow>
      let s1 = sqlScript @ ''  '' @ f_name field @ '' '' @ f_type field;
          s2 = (if truthy_num (characterMaximumLength field)
                then s1 @ ''('' @ show_num (characterMaximumLength field) @ '')''
                else s1);
          s3 = (if truthy_num (precision field) \<and> truthy_num (scale field)
                then s2 @ ''('' @ show_num (precision field) @ '', '' @
                       show_num (scale field) @ '')''
                else if truthy_num (precision field)
                then s2 @ ''('' @ show_num (precision field) @ '')''
                else s2);
          s4 = (if \<not> nullable field then s3 @ '' NOT NULL'' else s3);
          s5 = (if truthy_str (f_default field)
                then s4 @ '' DEFAULT '' @ show_str (f_default field)
                else s4);
          s6 = (if primaryKey field then s5 @ '' PRIMARY KEY'' else s5)
      in if int index < int len - 1 then s6 @ '',\<newline>'' else s6)"

text \<open>The body of \<open>table.indexes.forEach\<close>, lines 70 to 82.\<close>

definition index_fieldNames :: "DBTable \<Rightarrow> DBIndex \<Rightarrow> string" where
  "index_fieldNames table index =
     join '', ''
       (filter_Boolean
          (map (\<lambda>fieldId. map_option f_name (find (\<lambda>field. f_id field = fieldId) (t_fields table)))
             (fieldIds index)))"

definition emit_index :: "DBTable \<Rightarrow> string \<Rightarrow> DBIndex \<Rightarrow> string" where
  "emit_index table sqlScript index =
     (let fieldNames = index_fieldNames table index
      in if fieldNames \<noteq> []
         then sqlScript @ ''CREATE '' @ (if i_unique index then ''UNIQUE '' else []) @
                ''INDEX '' @ i_name index @ '' ON '' @ t_name table @
                '' ('' @ fieldNames @ '');\<newline>''
         else sqlScript)"

text \<open>The body of \<open>nonViewTables.forEach\<close>, lines 28 to 85.\<close>

definition emit_create_table :: "string \<Rightarrow> DBTable \<Rightarrow> string" where
  "emit_create_table sqlScript table =
     foldl (emit_field (length (t_fields table)))
       (sqlScript @ ''CREATE TABLE '' @ t_name table @ '' (\<newline>'')
       (enumerate 0 (t_fields table))
     @ ''\<newline>);\<newline>\<newline>''"

definition emit_table :: "string \<Rightarrow> DBTable \<Rightarrow> string" where
  "emit_table sqlScript table =
     foldl (emit_index table) (emit_create_table sqlScript table) (t_indexes table) @ ''\<newline>''"

text \<open>The body of \<open>relationships?.forEach\<close>, lines 88 to 111.\<close>

definition emit_relationship :: "DBTable list \<Rightarrow> string \<Rightarrow> DBRelationship \<Rightarrow> string" where
  "emit_relationship nonViewTables sqlScript relationship =
     (let sourceTable = find (\<lambda>table. t_id table = sourceTableId relationship) nonViewTables;
          targetTable = find (\<lambda>table. t_id table = targetTableId relationship) nonViewTables;
          sourceTableField =
            (case sourceTable of
               None \<Rightarrow> None
             | Some t \<Rightarrow> find (\<lambda>field. f_id field = sourceFieldId relationship) (t_fields t));
          targetTableField =
            (case targetTable of
               None \<Rightarrow> None
             | Some t \<Rightarrow> find (\<lambda>field. f_id field = targetFieldId relationship) (t_fields t))
      in case (sourceTable, targetTable, sourceTableField, targetTableField) of
           (Some st, Some tt, Some sf, Some tf) \<Rightarrow>
             sqlScript @ ''ALTER TABLE '' @ t_name st @ '' ADD CONSTRAINT '' @
               r_name relationship @ '' FOREIGN KEY ('' @ f_name sf @ '') REFERENCES '' @
               t_name tt @ '' ('' @ f_name tf @ '');\<newline>''
         | _ \<Rightarrow> sqlScript)"

text \<open>
  \<open>exportBaseSQL\<close> returns the script; the model returns it together with the diagram as
  the call leaves it. \<open>nonViewTables\<close> is filled (line 19) before the unifier runs (line 22)
  and holds references to the very tables the unifier then mutates: the model keeps the
  positions of the non-view tables and reads them in the diagram after the unifier.
\<close>

definition tables_of :: "Diagram \<Rightarrow> DBTable list" where
  "tables_of diagram = (case tables diagram of None \<Rightarrow> [] | Some ts \<Rightarrow> ts)"

definition exportBaseSQL :: "Diagram \<Rightarrow> string \<times> Diagram" where
  "exportBaseSQL diagram =
     (case tables diagram of
        None \<Rightarrow> ([], diagram)
      | Some ts \<Rightarrow>
          if ts = [] then ([], diagram)
          else
            let nonViewRefs = filter (\<lambda>i. \<not> isView (ts ! i)) [0..<length ts];
                diagram' = alignForeignKeyDataTypes diagram;
                nonViewTables = map (\<lambda>i. tables_of diagram' ! i) nonViewRefs;
                sqlScript = foldl emit_table [] nonViewTables;
                sqlScript' =
                  (case relationships diagram' of
                     None \<Rightarrow> sqlScript
                   | Some rs \<Rightarrow> foldl (emit_relationship nonViewTables) sqlScript rs)
            in (sqlScript', diagram'))"

section \<open>Notions used to state the properties\<close>

text \<open>
  \<open>erase_types\<close> forgets the \<open>type\<close> of every field and keeps everything else of a
  diagram: two diagrams with the same erasure have the same relationships, the same tables
  in the same order with the same ids, names, view flags and indexes, and in each table
  the same fields in the same order with the same attributes other than \<open>type\<close>.
\<close>

definition erase_field_type :: "DBField \<Rightarrow> DBField" where
  "erase_field_type field = field\<lparr>f_type := []\<rparr>"

definition erase_table_types :: "DBTable \<Rightarrow> DBTable" where
  "erase_table_types table = table\<lparr>t_fields := map erase_field_type (t_fields table)\<rparr>"

definition erase_types :: "Diagram \<Rightarrow> Diagram" where
  "erase_types diagram = diagram\<lparr>tables := map_option (map erase_table_types) (tables diagram)\<rparr>"

text \<open>The attributes of a table and of a field that the unifier must not touch.\<close>

definition table_attributes :: "DBTable \<Rightarrow> string \<times> string \<times> bool \<times> DBIndex list" where
  "table_attributes table = (t_id table, t_name table, isView table, t_indexes table)"

definition field_attributes ::
  "DBField \<Rightarrow> string \<times> string \<times> int option \<times> int option \<times> int option \<times> bool \<times> string option \<times> bool" where
  "field_attributes field =
     (f_id field, f_name field, characterMaximumLength field, precision field, scale field,
      nullable field, f_default field, primaryKey field)"

text \<open>
  The tables that \<open>exportBaseSQL\<close> emits, read after the unifier has run, and the
  relationships it walks. A relationship resolves against a list of tables when the first
  table with its source id and the first table with its target id are found there, and
  each of them has a field with the respective field id.
\<close>

definition relationships_of :: "Diagram \<Rightarrow> DBRelationship list" where
  "relationships_of diagram = (case relationships diagram of None \<Rightarrow> [] | Some rs \<Rightarrow> rs)"

definition nonViewTables_of :: "Diagram \<Rightarrow> DBTable list" where
  "nonViewTables_of diagram =
     filter (\<lambda>table. \<not> isView table) (tables_of (alignForeignKeyDataTypes diagram))"

definition rel_resolves :: "DBTable list \<Rightarrow> DBRelationship \<Rightarrow> bool" where
  "rel_resolves nonViewTables relationship =
     (case find (\<lambda>table. t_id table = sourceTableId relationship) nonViewTables of
        None \<Rightarrow> False
      | Some st \<Rightarrow>
     (case find (\<lambda>table. t_id table = targetTableId relationship) nonViewTables of
        None \<Rightarrow> False
      | Some tt \<Rightarrow>
          find (\<lambda>field. f_id field = sourceFieldId relationship) (t_fields st) \<noteq> None \<and>
          find (\<lambda>field. f_id field = targetFieldId relationship) (t_fields tt) \<noteq> None))"

text \<open>
  The column line as section 4.2 of the specification words it, where the length clause
  excludes the precision clause ("if \<open>characterMaximumLength\<close> is set \<open>(length)\<close>, else
  if both \<open>precision\<close> and \<open>scale\<close> are set \<open>(precision, scale)\<close>, else if only
  \<open>precision\<close> is set \<open>(precision)\<close>"). It is compared with \<open>emit_field\<close>, which follows
  the code.
\<close>

definition spec_emit_field :: "nat \<Rightarrow> string \<Rightarrow> nat \<times> DBField \<Rightarrow> string" where
  "spec_emit_field len sqlScript p =
     (case p of (index, field) \<Rightarrow>
        sqlScript @ ''  '' @ f_name field @ '' '' @ f_type field @
        (if truthy_num (characterMaximumLength field)
         then ''('' @ show_num (characterMaximumLength field) @ '')''
         else if truthy_num (precision field) \<and> truthy_num (scale field)
         then ''('' @ show_num (precision field) @ '', '' @ show_num (scale field) @ '')''
         else if truthy_num (precision field)
         then ''('' @ show_num (precision field) @ '')''
         else []) @
        (if \<not> nullable field then '' NOT NULL'' else []) @
        (if truthy_str (f_default field) then '' DEFAULT '' @ show_str (f_default field) else []) @
        (if primaryKey field then '' PRIMARY KEY'' else []) @
        (if index + 1 < len then '',\<newline>'' else []))"


text \<open>
  The endpoints of a relationship as the unifier finds them: the position of the table that
  \<open>tableMap\<close> holds for the source id and of the first field of that table with the
  source field id, and the same for the target. \<open>align_relationship\<close> acts on a
  relationship exactly when this is defined (lemma \<open>align_relationship_resolve\<close> below).
\<close>

definition resolve ::
  "(string \<rightharpoonup> nat) \<Rightarrow> DBTable list \<Rightarrow> DBRelationship \<Rightarrow> ((nat \<times> nat) \<times> (nat \<times> nat)) option" where
  "resolve tableMap ts relationship =
     (case tableMap (sourceTableId relationship) of
        None \<Rightarrow> None
      | Some sourceTable \<Rightarrow>
     (case tableMap (targetTableId relationship) of
        None \<Rightarrow> None
      | Some targetTable \<Rightarrow>
     (case find_index (\<lambda>field. f_id field = sourceFieldId relationship)
             (t_fields (ts ! sourceTable)) of
        None \<Rightarrow> None
      | Some sourceField \<Rightarrow>
     (case find_index (\<lambda>field. f_id field = targetFieldId relationship)
             (t_fields (ts ! targetTable)) of
        None \<Rightarrow> None
      | Some targetField \<Rightarrow> Some ((sourceTable, sourceField), (targetTable, targetField))))))"

definition endpoints :: "(string \<rightharpoonup> nat) \<Rightarrow> DBTable list \<Rightarrow> DBRelationship \<Rightarrow> (nat \<times> nat) list" where
  "endpoints tableMap ts relationship =
     (case resolve tableMap ts relationship of None \<Rightarrow> [] | Some (p, q) \<Rightarrow> [p, q])"

text \<open>
  No field is an endpoint of two relationships of the list (a relationship may have the
  same field at both ends).
\<close>

fun no_shared_field :: "(string \<rightharpoonup> nat) \<Rightarrow> DBTable list \<Rightarrow> DBRelationship list \<Rightarrow> bool" where
  "no_shared_field tableMap ts [] = True"
| "no_shared_field tableMap ts (r # rs) =
     (list_all (\<lambda>r'. list_all (\<lambda>p. p \<notin> set (endpoints tableMap ts r')) (endpoints tableMap ts r)) rs
      \<and> no_shared_field tableMap ts rs)"

definition no_shared_endpoint :: "Diagram \<Rightarrow> bool" where
  "no_shared_endpoint diagram =
     no_shared_field (build_tableMap (tables_of diagram) 0 Map.empty) (tables_of diagram)
       (relationships_of diagram)"

text \<open>
  A relationship is settled in a state of the tables when the unifier has nothing to do
  for it: it does not resolve, or neither size is greater than the other. Every position
  held by a table map lies within the tables array.
\<close>

definition settled :: "(string \<rightharpoonup> nat) \<Rightarrow> DBTable list \<Rightarrow> DBRelationship \<Rightarrow> bool" where
  "settled tableMap ts relationship =
     (case resolve tableMap ts relationship of
        None \<Rightarrow> True
      | Some ((si, sf), (ti, tf)) \<Rightarrow>
          \<not> js_gt (getMySQLDataTypeSize (get_field_type ts si sf))
                  (getMySQLDataTypeSize (get_field_type ts ti tf)) \<and>
          \<not> js_gt (getMySQLDataTypeSize (get_field_type ts ti tf))
                  (getMySQLDataTypeSize (get_field_type ts si sf)))"

definition refs_in_range :: "(string \<rightharpoonup> nat) \<Rightarrow> nat \<Rightarrow> bool" where
  "refs_in_range tableMap n = (\<forall>k j. tableMap k = Some j \<longrightarrow> j < n)"

text \<open>The types of all fields, table by table.\<close>

definition field_types :: "Diagram \<Rightarrow> string list list" where
  "field_types diagram = map (\<lambda>table. map f_type (t_fields table)) (tables_of diagram)"

text \<open>
  The size table and the widening rule as section 4.1 of the specification words them:
  the nine listed types have the listed weights, "any type not in the table has weight 0",
  and the weights are compared as numbers. They are compared with
  \<open>getMySQLDataTypeSize\<close> and \<open>align_relationship\<close>, which follow the code.
\<close>

definition spec_size :: "string \<Rightarrow> nat" where
  "spec_size type =
     (let key = toLowerCase type in
      if key = ''tinyint'' then 1
      else if key = ''smallint'' then 2
      else if key = ''mediumint'' then 3
      else if key = ''integer'' then 4
      else if key = ''bigint'' then 8
      else if key = ''float'' then 4
      else if key = ''double'' then 8
      else if key = ''decimal'' then 16
      else if key = ''numeric'' then 16
      else 0)"

definition spec_align_relationship ::
  "(string \<rightharpoonup> nat) \<Rightarrow> DBTable list \<Rightarrow> DBRelationship \<Rightarrow> DBTable list" where
  "spec_align_relationship tableMap ts relationship =
     (case resolve tableMap ts relationship of
        None \<Rightarrow> ts
      | Some ((si, sf), (ti, tf)) \<Rightarrow>
          if spec_size (get_field_type ts si sf) > spec_size (get_field_type ts ti tf)
          then set_field_type ts ti tf (get_field_type ts si sf)
          else if spec_size (get_field_type ts ti tf) > spec_size (get_field_type ts si sf)
          then set_field_type ts si sf (get_field_type ts ti tf)
          else ts)"

text \<open>
  The lines of a script, as \<open>script.split('\n')\<close> gives them, and the lines that begin
  with \<open>ALTER TABLE\<close>, or with \<open>CREATE TABLE\<close>, \<open>CREATE INDEX\<close> or
  \<open>CREATE UNIQUE INDEX\<close>.
\<close>

fun split_from :: "string \<Rightarrow> string \<Rightarrow> string list" where
  "split_from line [] = [line]"
| "split_from line (c # cs) =
     (if c = CHR ''\<newline>'' then line # split_from [] cs else split_from (line @ [c]) cs)"

definition split_lines :: "string \<Rightarrow> string list" where
  "split_lines s = split_from [] s"

definition is_alter_line :: "string \<Rightarrow> bool" where
  "is_alter_line l = (take 11 l = ''ALTER TABLE'')"

definition is_create_line :: "string \<Rightarrow> bool" where
  "is_create_line l =
     (take 12 l = ''CREATE TABLE'' \<or> take 12 l = ''CREATE INDEX'' \<or>
      take 19 l = ''CREATE UNIQUE INDEX'')"

text \<open>
  A text without a line break, and a diagram in which no table name, field name, field
  type, field default, index name or relationship name holds one.
\<close>

definition one_line :: "string \<Rightarrow> bool" where
  "one_line s = (CHR ''\<newline>'' \<notin> set s)"

definition one_line_field :: "DBField \<Rightarrow> bool" where
  "one_line_field field =
     (one_line (f_name field) \<and> one_line (f_type field) \<and>
      (case f_default field of None \<Rightarrow> True | Some s \<Rightarrow> one_line s))"

definition one_line_table :: "DBTable \<Rightarrow> bool" where
  "one_line_table table =
     (one_line (t_name table) \<and> list_all one_line_field (t_fields table) \<and>
      list_all (\<lambda>index. one_line (i_name index)) (t_indexes table))"

definition no_line_breaks :: "Diagram \<Rightarrow> bool" where
  "no_line_breaks diagram =
     (list_all one_line_table (tables_of diagram) \<and>
      list_all (\<lambda>relationship. one_line (r_name relationship)) (relationships_of diagram))"

text \<open>
  The first characters of the non-empty lines of a text; the flag says whether the text
  starts at the beginning of a line.
\<close>

fun heads :: "bool \<Rightarrow> string \<Rightarrow> string" where
  "heads b [] = []"
| "heads b (c # cs) =
     (if c = CHR ''\<newline>'' then heads True cs
      else if b then c # heads False cs else heads False cs)"

section \<open>Example diagrams\<close>

text \<open>
  The example of section 8 of the specification: \<open>users\<close> and \<open>orders\<close>, and the
  foreign key from \<open>orders.user_id\<close> (\<open>smallint\<close>) to \<open>users.id\<close> (\<open>integer\<close>).
\<close>

definition ex_field :: "string \<Rightarrow> string \<Rightarrow> string \<Rightarrow> DBField" where
  "ex_field i n ty =
     \<lparr>f_id = i, f_name = n, f_type = ty, characterMaximumLength = None, precision = None,
      scale = None, nullable = False, f_default = None, primaryKey = False\<rparr>"

definition ex_users :: DBTable where
  "ex_users =
     \<lparr>t_id = ''t1'', t_name = ''users'', isView = False,
      t_fields = [(ex_field ''f1'' ''id'' ''integer'')\<lparr>nullable := True, primaryKey := True\<rparr>,
                  (ex_field ''f2'' ''name'' ''varchar'')\<lparr>characterMaximumLength := Some 255\<rparr>],
      t_indexes = []\<rparr>"

definition ex_orders :: DBTable where
  "ex_orders =
     \<lparr>t_id = ''t2'', t_name = ''orders'', isView = False,
      t_fields = [(ex_field ''f1'' ''id'' ''integer'')\<lparr>nullable := True, primaryKey := True\<rparr>,
                  ex_field ''f2'' ''user_id'' ''smallint''],
      t_indexes = []\<rparr>"

definition ex_fk :: DBRelationship where
  "ex_fk =
     \<lparr>r_name = ''fk_orders_user'', sourceTableId = ''t2'', sourceFieldId = ''f2'',
      targetTableId = ''t1'', targetFieldId = ''f1''\<rparr>"

definition ex_dangling :: DBRelationship where
  "ex_dangling =
     \<lparr>r_name = ''fk_lost'', sourceTableId = ''t1'', sourceFieldId = ''f1'',
      targetTableId = ''t9'', targetFieldId = ''f1''\<rparr>"

definition ex_diagram :: Diagram where
  "ex_diagram = \<lparr>tables = Some [ex_users, ex_orders], relationships = Some [ex_dangling, ex_fk]\<rparr>"

definition ex_no_tables :: Diagram where
  "ex_no_tables = \<lparr>tables = Some [], relationships = Some [ex_fk]\<rparr>"

definition ex_views :: Diagram where
  "ex_views =
     \<lparr>tables = Some [ex_users\<lparr>isView := True\<rparr>, ex_orders\<lparr>isView := True\<rparr>],
      relationships = Some [ex_fk]\<rparr>"

text \<open>A table without fields, with an index that cannot resolve.\<close>

definition ex_bare :: DBTable where
  "ex_bare =
     \<lparr>t_id = ''t3'', t_name = ''audit'', isView = False, t_fields = [],
      t_indexes = [\<lparr>i_name = ''ix_audit'', i_unique = False, fieldIds = [''f1'']\<rparr>]\<rparr>"

definition ex_bare_diagram :: Diagram where
  "ex_bare_diagram =
     \<lparr>tables = Some [ex_users, ex_bare, ex_orders], relationships = Some [ex_fk]\<rparr>"

text \<open>A \<open>decimal\<close> field with a length, a precision and a scale.\<close>

definition ex_price :: DBField where
  "ex_price =
     (ex_field ''f3'' ''price'' ''decimal'')
       \<lparr>characterMaximumLength := Some 10, precision := Some 8, scale := Some 2\<rparr>"

text \<open>The example of section 8 with a line break in the name of the foreign key.\<close>

definition ex_injected :: Diagram where
  "ex_injected =
     \<lparr>tables = Some [ex_users, ex_orders],
      relationships = Some [ex_fk\<lparr>r_name := ''fk_orders_user\<newline>CREATE TABLE extra''\<rparr>]\<rparr>"




text \<open>Two foreign keys between \<open>orders\<close> and \<open>users\<close> that have no field in common.\<close>

definition ex_two_keys :: Diagram where
  "ex_two_keys =
     \<lparr>tables = Some [ex_users, ex_orders],
      relationships = Some
        [ex_fk,
         \<lparr>r_name = ''fk_orders_name'', sourceTableId = ''t2'', sourceFieldId = ''f1'',
          targetTableId = ''t1'', targetFieldId = ''f2''\<rparr>]\<rparr>"

text \<open>Three fields of growing size linked in a chain by two relationships.\<close>

definition ex_chain :: Diagram where
  "ex_chain =
     \<lparr>tables = Some
        [\<lparr>t_id = ''t5'', t_name = ''nodes'', isView = False,
          t_fields = [ex_field ''a'' ''a'' ''tinyint'', ex_field ''b'' ''b'' ''smallint'',
                      ex_field ''c'' ''c'' ''bigint''],
          t_indexes = []\<rparr>],
      relationships = Some
        [\<lparr>r_name = ''fk_ab'', sourceTableId = ''t5'', sourceFieldId = ''a'',
          targetTableId = ''t5'', targetFieldId = ''b''\<rparr>,
         \<lparr>r_name = ''fk_bc'', sourceTableId = ''t5'', sourceFieldId = ''b'',
          targetTableId = ''t5'', targetFieldId = ''c''\<rparr>]\<rparr>"

text \<open>A foreign key from a column whose type is named \<open>constructor\<close>.\<close>

definition ex_inherited_tables :: "DBTable list" where
  "ex_inherited_tables =
     [\<lparr>t_id = ''t6'', t_name = ''parts'', isView = False,
       t_fields = [ex_field ''f1'' ''maker'' ''constructor''], t_indexes = []\<rparr>,
      \<lparr>t_id = ''t7'', t_name = ''makers'', isView = False,
       t_fields = [ex_field ''f1'' ''id'' ''integer''], t_indexes = []\<rparr>]"

definition ex_inherited_fk :: DBRelationship where
  "ex_inherited_fk =
     \<lparr>r_name = ''fk_parts_maker'', sourceTableId = ''t6'', sourceFieldId = ''f1'',
      targetTableId = ''t7'', targetFieldId = ''f1''\<rparr>"

definition ex_inherited :: Diagram where
  "ex_inherited = \<lparr>tables = Some ex_inherited_tables, relationships = Some [ex_inherited_fk]\<rparr>"


section \<open>The scripts are built by appending\<close>

lemma foldl_prefix:
  assumes "\<And>s x. f (a @ s) x = a @ f s x"
  shows "foldl f (a @ s) xs = a @ foldl f s xs"
  using assms by (induction xs arbitrary: s) simp_all

lemma foldl_concat:
  assumes "\<And>a s x. f (a @ s) x = a @ f s x"
  shows "foldl f acc xs = acc @ concat (map (f []) xs)"
proof (induction xs arbitrary: acc)
  case Nil
  show ?case by simp
next
  case (Cons x xs)
  have "f acc x = acc @ f [] x"
    using assms [of acc "[]" x] by simp
  then show ?case
    by (simp add: Cons.IH)
qed

lemma emit_field_prefix: "emit_field len (a @ s) p = a @ emit_field len s p"
  by (simp add: emit_field_def Let_def split: prod.splits)

lemma emit_index_prefix: "emit_index table (a @ s) index = a @ emit_index table s index"
  by (simp add: emit_index_def Let_def)

lemma emit_create_table_prefix:
  "emit_create_table (a @ s) table = a @ emit_create_table s table"
  using foldl_prefix [of "emit_field (length (t_fields table))" a, OF emit_field_prefix]
  by (simp add: emit_create_table_def)

lemma emit_table_prefix: "emit_table (a @ s) table = a @ emit_table s table"
  using foldl_prefix [of "emit_index table" a, OF emit_index_prefix]
  by (simp add: emit_table_def emit_create_table_prefix)

lemma emit_relationship_prefix:
  "emit_relationship nvts (a @ s) r = a @ emit_relationship nvts s r"
  by (simp add: emit_relationship_def Let_def split: option.splits)

section \<open>What the unifier leaves alone\<close>

lemma map_update_same:
  assumes "f y = f (xs ! i)"
  shows "map f (xs[i := y]) = map f xs"
proof (cases "i < length xs")
  case True
  have "map f (xs[i := y]) = (map f xs)[i := f (xs ! i)]"
    by (simp add: map_update assms)
  also have "\<dots> = map f xs"
    using True by (metis list_update_id nth_map)
  finally show ?thesis .
next
  case False
  then have "xs[i := y] = xs" by (simp add: list_update_beyond)
  then show ?thesis by simp
qed

lemma erase_set_field_type:
  "map erase_table_types (set_field_type ts ti fi ty) = map erase_table_types ts"
proof -
  have inner: "map erase_field_type ((t_fields (ts ! ti))[fi := (t_fields (ts ! ti) ! fi)\<lparr>f_type := ty\<rparr>])
      = map erase_field_type (t_fields (ts ! ti))"
    by (rule map_update_same) (simp add: erase_field_type_def)
  show ?thesis
    unfolding set_field_type_def
    by (rule map_update_same) (simp add: erase_table_types_def inner)
qed

lemma erase_align_relationship:
  "map erase_table_types (align_relationship M ts r) = map erase_table_types ts"
  by (simp add: align_relationship_def Let_def erase_set_field_type split: option.splits)

lemma erase_foldl_align:
  "map erase_table_types (foldl (align_relationship M) ts rs) = map erase_table_types ts"
  by (induction rs arbitrary: ts) (simp_all add: erase_align_relationship)

lemma erase_alignForeignKeyDataTypes:
  "erase_types (alignForeignKeyDataTypes d) = erase_types d"
  by (simp add: alignForeignKeyDataTypes_def erase_types_def erase_foldl_align
      split: option.splits)

lemma erase_ids: "map erase_table_types ts' = map erase_table_types ts \<Longrightarrow> map t_id ts' = map t_id ts"
proof -
  assume a: "map erase_table_types ts' = map erase_table_types ts"
  have "map t_id (map erase_table_types ts') = map t_id (map erase_table_types ts)"
    using a by simp
  then show ?thesis by (simp add: erase_table_types_def comp_def)
qed

lemma erase_views: "map erase_table_types ts' = map erase_table_types ts \<Longrightarrow> map isView ts' = map isView ts"
proof -
  assume a: "map erase_table_types ts' = map erase_table_types ts"
  have "map isView (map erase_table_types ts') = map isView (map erase_table_types ts)"
    using a by simp
  then show ?thesis by (simp add: erase_table_types_def comp_def)
qed

lemma erase_length: "map erase_table_types ts' = map erase_table_types ts \<Longrightarrow> length ts' = length ts"
  by (metis length_map)

lemma build_tableMap_range:
  "build_tableMap ts i m k = Some j \<Longrightarrow>
     m k = Some j \<or> (i \<le> j \<and> j < i + length ts \<and> t_id (ts ! (j - i)) = k)"
proof (induction ts arbitrary: i m)
  case Nil
  then show ?case by simp
next
  case (Cons t ts)
  from Cons.prems have "build_tableMap ts (Suc i) (m(t_id t \<mapsto> i)) k = Some j" by simp
  from Cons.IH [OF this] show ?case
  proof
    assume "(m(t_id t \<mapsto> i)) k = Some j"
    then show ?thesis by (auto split: if_splits)
  next
    assume h: "Suc i \<le> j \<and> j < Suc i + length ts \<and> t_id (ts ! (j - Suc i)) = k"
    then have "j - i = Suc (j - Suc i)" by arith
    with h show ?thesis by auto
  qed
qed

lemma tableMap_Some:
  "build_tableMap ts 0 Map.empty k = Some j \<Longrightarrow> j < length ts \<and> t_id (ts ! j) = k"
  using build_tableMap_range [of ts 0 Map.empty k j] by simp

lemma build_tableMap_ids:
  "map t_id ts = map t_id ts' \<Longrightarrow> build_tableMap ts i m = build_tableMap ts' i m"
proof (induction ts arbitrary: ts' i m)
  case Nil
  then show ?case by simp
next
  case (Cons t ts)
  then obtain t' ts'' where "ts' = t' # ts''" "t_id t = t_id t'" "map t_id ts = map t_id ts''"
    by (cases ts') auto
  with Cons.IH [of ts''] show ?case by simp
qed

section \<open>The sections of the emitted script\<close>

lemma relationships_align: "relationships (alignForeignKeyDataTypes d) = relationships d"
  by (simp add: alignForeignKeyDataTypes_def split: option.splits)

lemma tables_align_None: "tables d = None \<Longrightarrow> alignForeignKeyDataTypes d = d"
  by (simp add: alignForeignKeyDataTypes_def)

lemma tables_align_Nil: "tables d = Some [] \<Longrightarrow> alignForeignKeyDataTypes d = d"
  by (simp add: alignForeignKeyDataTypes_def)

lemma tables_of_erase:
  "map erase_table_types (tables_of (alignForeignKeyDataTypes d)) = map erase_table_types (tables_of d)"
  by (simp add: alignForeignKeyDataTypes_def tables_of_def erase_foldl_align split: option.splits)

lemma filter_by_refs:
  assumes "map isView ts' = map isView ts"
  shows "map (\<lambda>i. ts' ! i) (filter (\<lambda>i. \<not> isView (ts ! i)) [0..<length ts])
         = filter (\<lambda>t. \<not> isView t) ts'"
proof -
  have len: "length ts' = length ts"
    using assms by (metis length_map)
  have same: "isView (ts ! i) = isView (ts' ! i)" if "i < length ts" for i
    using assms that len by (metis nth_map)
  have a: "filter (\<lambda>i. \<not> isView (ts ! i)) [0..<length ts]
        = filter (\<lambda>i. \<not> isView (ts' ! i)) [0..<length ts]"
    by (rule filter_cong) (simp_all add: same)
  have "filter (\<lambda>t. \<not> isView t) ts'
        = filter (\<lambda>t. \<not> isView t) (map (\<lambda>i. ts' ! i) [0..<length ts'])"
    by (simp only: map_nth)
  also have "\<dots> = map (\<lambda>i. ts' ! i) (filter (\<lambda>i. \<not> isView (ts' ! i)) [0..<length ts'])"
    by (simp add: filter_map comp_def)
  finally show ?thesis
    by (simp only: a len)
qed

lemma nonView_refs:
  assumes "tables d = Some ts"
  shows "map (\<lambda>i. tables_of (alignForeignKeyDataTypes d) ! i)
           (filter (\<lambda>i. \<not> isView (ts ! i)) [0..<length ts]) = nonViewTables_of d"
proof -
  have "map erase_table_types (tables_of (alignForeignKeyDataTypes d)) = map erase_table_types ts"
    using tables_of_erase [of d] assms by (simp add: tables_of_def)
  then have "map isView (tables_of (alignForeignKeyDataTypes d)) = map isView ts"
    by (rule erase_views)
  from filter_by_refs [OF this] show ?thesis
    by (simp add: nonViewTables_of_def)
qed

lemma emit_relationship_Nil: "emit_relationship [] acc r = acc"
  by (simp add: emit_relationship_def)

lemma exportBaseSQL_sections:
  "fst (exportBaseSQL d) =
     concat (map (emit_table []) (nonViewTables_of d)) @
     concat (map (emit_relationship (nonViewTables_of d) []) (relationships_of d))"
proof (cases "tables d")
  case None
  then show ?thesis
    by (simp add: exportBaseSQL_def nonViewTables_of_def tables_align_None tables_of_def
        emit_relationship_Nil)
next
  case (Some ts)
  show ?thesis
  proof (cases "ts = []")
    case True
    with Some show ?thesis
      by (simp add: exportBaseSQL_def nonViewTables_of_def tables_align_Nil tables_of_def
          emit_relationship_Nil)
  next
    case False
    have t: "foldl emit_table [] nvts = concat (map (emit_table []) nvts)" for nvts
      using foldl_concat [of emit_table "[]" nvts, OF emit_table_prefix] by simp
    have r: "foldl (emit_relationship nvts) acc rs
             = acc @ concat (map (emit_relationship nvts []) rs)" for nvts acc rs
      by (rule foldl_concat) (rule emit_relationship_prefix)
    show ?thesis
      using Some False
      by (simp add: exportBaseSQL_def Let_def nonView_refs [OF Some] relationships_align
          relationships_of_def t r split: option.splits)
  qed
qed

lemma exportBaseSQL_state: "snd (exportBaseSQL d) = alignForeignKeyDataTypes d"
  by (simp add: exportBaseSQL_def Let_def tables_align_None tables_align_Nil split: option.splits)

lemma emit_relationship_unresolved:
  "\<not> rel_resolves nvts r \<Longrightarrow> emit_relationship nvts acc r = acc"
  by (auto simp add: rel_resolves_def emit_relationship_def Let_def split: option.splits)

lemma concat_map_unresolved:
  assumes "\<And>x. \<not> P x \<Longrightarrow> f x = []"
  shows "concat (map f (filter P xs)) = concat (map f xs)"
  using assms by (induction xs) auto

section \<open>How the unifier treats one relationship\<close>

lemma align_relationship_resolve:
  "align_relationship M ts r =
     (case resolve M ts r of
        None \<Rightarrow> ts
      | Some ((si, sf), (ti, tf)) \<Rightarrow>
          if js_gt (getMySQLDataTypeSize (get_field_type ts si sf))
                   (getMySQLDataTypeSize (get_field_type ts ti tf))
          then set_field_type ts ti tf (get_field_type ts si sf)
          else if js_gt (getMySQLDataTypeSize (get_field_type ts ti tf))
                        (getMySQLDataTypeSize (get_field_type ts si sf))
          then set_field_type ts si sf (get_field_type ts ti tf)
          else ts)"
  by (simp add: align_relationship_def resolve_def Let_def split: option.splits)

lemma find_index_Some:
  "find_index P xs = Some i \<Longrightarrow> i < length xs \<and> P (xs ! i)"
proof (induction xs arbitrary: i)
  case Nil
  then show ?case by simp
next
  case (Cons x xs)
  show ?case
  proof (cases "P x")
    case True
    with Cons.prems show ?thesis by simp
  next
    case False
    with Cons.prems obtain j where j: "find_index P xs = Some j" "i = Suc j"
      by (auto split: option.splits)
    from Cons.IH [OF j(1)] j(2) show ?thesis by simp
  qed
qed

lemma find_index_map: "find_index P (map g xs) = find_index (\<lambda>x. P (g x)) xs"
  by (induction xs) simp_all

lemma refs_in_range_build: "refs_in_range (build_tableMap ts 0 Map.empty) (length ts)"
  unfolding refs_in_range_def using tableMap_Some by blast

lemma resolve_in_range:
  assumes "refs_in_range M (length ts)" and "resolve M ts r = Some ((si, sf), (ti, tf))"
  shows "si < length ts \<and> sf < length (t_fields (ts ! si)) \<and>
         ti < length ts \<and> tf < length (t_fields (ts ! ti))"
proof -
  from assms(2) have a: "M (sourceTableId r) = Some si" "M (targetTableId r) = Some ti"
    "find_index (\<lambda>field. f_id field = sourceFieldId r) (t_fields (ts ! si)) = Some sf"
    "find_index (\<lambda>field. f_id field = targetFieldId r) (t_fields (ts ! ti)) = Some tf"
    by (auto simp add: resolve_def split: option.splits)
  from a(1,2) assms(1) have "si < length ts" "ti < length ts"
    by (auto simp add: refs_in_range_def)
  moreover from a(3,4) have "sf < length (t_fields (ts ! si))" "tf < length (t_fields (ts ! ti))"
    by (auto dest: find_index_Some)
  ultimately show ?thesis by simp
qed

lemma erase_field_ids:
  assumes "map erase_table_types ts' = map erase_table_types ts" and "j < length ts"
  shows "map f_id (t_fields (ts' ! j)) = map f_id (t_fields (ts ! j))"
proof -
  have len: "length ts' = length ts" using assms(1) by (rule erase_length)
  have "erase_table_types (ts' ! j) = erase_table_types (ts ! j)"
    using assms len by (metis nth_map)
  then have "t_fields (erase_table_types (ts' ! j)) = t_fields (erase_table_types (ts ! j))"
    by simp
  then have "map erase_field_type (t_fields (ts' ! j)) = map erase_field_type (t_fields (ts ! j))"
    by (simp add: erase_table_types_def)
  then have "map f_id (map erase_field_type (t_fields (ts' ! j)))
           = map f_id (map erase_field_type (t_fields (ts ! j)))"
    by simp
  then show ?thesis
    by (simp add: erase_field_type_def comp_def)
qed

lemma find_field_erase:
  assumes "map erase_table_types ts' = map erase_table_types ts" and "j < length ts"
  shows "find_index (\<lambda>field. f_id field = k) (t_fields (ts' ! j))
       = find_index (\<lambda>field. f_id field = k) (t_fields (ts ! j))"
proof -
  have a: "find_index (\<lambda>field. f_id field = k) fs = find_index (\<lambda>x. x = k) (map f_id fs)"
    for fs
    by (simp add: find_index_map)
  show ?thesis
    unfolding a by (simp only: erase_field_ids [OF assms])
qed

lemma resolve_erase:
  assumes "map erase_table_types ts' = map erase_table_types ts" and "refs_in_range M (length ts)"
  shows "resolve M ts' r = resolve M ts r"
proof (cases "M (sourceTableId r)")
  case None
  then show ?thesis by (simp add: resolve_def)
next
  case (Some si)
  note si = this
  show ?thesis
  proof (cases "M (targetTableId r)")
    case None
    with si show ?thesis by (simp add: resolve_def)
  next
    case (Some ti)
    from si Some assms(2) have r: "si < length ts" "ti < length ts"
      by (auto simp add: refs_in_range_def)
    show ?thesis
      using si Some
      by (simp add: resolve_def find_field_erase [OF assms(1) r(1)]
          find_field_erase [OF assms(1) r(2)] cong: option.case_cong)
  qed
qed

lemma endpoints_erase:
  assumes "map erase_table_types ts' = map erase_table_types ts" and "refs_in_range M (length ts)"
  shows "endpoints M ts' r = endpoints M ts r"
  by (simp add: endpoints_def resolve_erase [OF assms])

lemma no_shared_field_erase:
  assumes "map erase_table_types ts' = map erase_table_types ts" and "refs_in_range M (length ts)"
  shows "no_shared_field M ts' rs = no_shared_field M ts rs"
  by (induction rs) (simp_all add: endpoints_erase [OF assms])

lemma get_set_same:
  "ti < length ts \<Longrightarrow> fi < length (t_fields (ts ! ti)) \<Longrightarrow>
     get_field_type (set_field_type ts ti fi ty) ti fi = ty"
  by (simp add: get_field_type_def set_field_type_def)

lemma get_set_other:
  "(ti', fi') \<noteq> (ti, fi) \<Longrightarrow>
     get_field_type (set_field_type ts ti fi ty) ti' fi' = get_field_type ts ti' fi'"
proof (cases "ti' = ti")
  case False
  then show ?thesis by (simp add: get_field_type_def set_field_type_def)
next
  case True
  assume "(ti', fi') \<noteq> (ti, fi)"
  with True have ne: "fi' \<noteq> fi" by simp
  show ?thesis
  proof (cases "ti < length ts")
    case True
    with \<open>ti' = ti\<close> ne show ?thesis by (simp add: get_field_type_def set_field_type_def)
  next
    case False
    then show ?thesis by (simp add: get_field_type_def set_field_type_def list_update_beyond)
  qed
qed

lemma str_less_irrefl: "\<not> str_less s s"
  by (induction s) simp_all

lemma js_gt_irrefl: "\<not> js_gt a a"
  by (cases a) (simp_all add: js_gt_def str_less_irrefl)

section \<open>Properties\<close>

subsection \<open>C1: the emitter and the diagram\<close>

text \<open>
  C1 as stated says that the diagram after \<open>exportBaseSQL\<close> equals the diagram before.
  \<open>exportBaseSQL\<close> itself calls \<open>alignForeignKeyDataTypes(diagram)\<close> (line 22): on the
  example, \<open>orders.user_id\<close> is \<open>smallint\<close> before the call and \<open>integer\<close> after it.
\<close>

theorem exportBaseSQL_mutates_counterexample:
  "snd (exportBaseSQL ex_diagram) \<noteq> ex_diagram"
  by code_simp

text \<open>
  C1, amended: \<open>exportBaseSQL\<close> changes the diagram exactly as the type unifier does, which
  it runs itself: the diagram after the call is \<open>alignForeignKeyDataTypes\<close> of the diagram
  before it. A diagram whose relationships are absent or empty is left as it was.
\<close>

theorem exportBaseSQL_effect_is_unifier:
  "snd (exportBaseSQL d) = alignForeignKeyDataTypes d \<and>
   (relationships d = None \<or> relationships d = Some [] \<longrightarrow> snd (exportBaseSQL d) = d)"
  by (auto simp add: exportBaseSQL_state alignForeignKeyDataTypes_def split: option.splits)

theorem exportBaseSQL_effect_is_unifier_witness:
  "snd (exportBaseSQL ex_diagram) = alignForeignKeyDataTypes ex_diagram \<and>
   relationships (ex_diagram\<lparr>relationships := None\<rparr>) = None \<and>
   snd (exportBaseSQL (ex_diagram\<lparr>relationships := None\<rparr>)) = ex_diagram\<lparr>relationships := None\<rparr>"
proof -
  have h: "relationships (ex_diagram\<lparr>relationships := None\<rparr>) = None" by simp
  show ?thesis
    using h exportBaseSQL_effect_is_unifier [of ex_diagram]
      exportBaseSQL_effect_is_unifier [of "ex_diagram\<lparr>relationships := None\<rparr>"]
    by blast
qed

subsection \<open>C2: length and precision on one field\<close>

text \<open>
  When a field does not have both a length and a precision, the code writes the column
  line that section 4.2 of the specification words.
\<close>

lemma emit_field_is_spec:
  assumes "\<not> (truthy_num (characterMaximumLength field) \<and> truthy_num (precision field))"
  shows "emit_field len sqlScript (index, field) = spec_emit_field len sqlScript (index, field)"
proof -
  have c: "(int index < int len - 1) = (index + 1 < len)" by auto
  show ?thesis
    using assms by (auto simp add: emit_field_def spec_emit_field_def Let_def c)
qed

text \<open>
  C2 at a field with both: the claim, like section 4.2, gives the \<open>(length)\<close> clause
  only. The code comments its two tests as "size for character types" (line 34) and
  "precision and scale for numeric types" (line 39), two kinds of column that exclude
  each other, but writes them as two independent statements with no \<open>else\<close> between
  them: a \<open>decimal\<close> field with length 10, precision 8 and scale 2 gets both clauses,
  \<open>decimal(10)(8, 2)\<close>, which no dialect accepts.
\<close>

theorem length_and_precision_both_written:
  "truthy_num (characterMaximumLength ex_price) \<and> truthy_num (precision ex_price) \<and>
   spec_emit_field 1 [] (0, ex_price) = ''  price decimal(10) NOT NULL'' \<and>
   emit_field 1 [] (0, ex_price) = ''  price decimal(10)(8, 2) NOT NULL'' \<and>
   emit_field 1 [] (0, ex_price) \<noteq> spec_emit_field 1 [] (0, ex_price)"
  by code_simp

subsection \<open>C3: running the unifier twice\<close>

lemma settled_fixpoint: "settled M ts r \<Longrightarrow> align_relationship M ts r = ts"
  by (auto simp add: settled_def align_relationship_resolve split: option.splits)

lemma align_relationship_cases:
  "align_relationship M ts r = ts \<or>
   (\<exists>p ty. p \<in> set (endpoints M ts r) \<and>
      align_relationship M ts r = set_field_type ts (fst p) (snd p) ty)"
proof (cases "resolve M ts r")
  case None
  then show ?thesis by (simp add: align_relationship_resolve)
next
  case (Some e)
  obtain si sf ti tf where e: "e = ((si, sf), (ti, tf))"
    by (metis prod.exhaust)
  have ep: "endpoints M ts r = [(si, sf), (ti, tf)]"
    using Some e by (simp add: endpoints_def)
  let ?a = "getMySQLDataTypeSize (get_field_type ts si sf)"
  let ?b = "getMySQLDataTypeSize (get_field_type ts ti tf)"
  consider (down) "js_gt ?a ?b" | (up) "\<not> js_gt ?a ?b" "js_gt ?b ?a"
    | (same) "\<not> js_gt ?a ?b" "\<not> js_gt ?b ?a"
    by blast
  then show ?thesis
  proof cases
    case down
    then have "align_relationship M ts r = set_field_type ts ti tf (get_field_type ts si sf)"
      using Some e by (simp add: align_relationship_resolve)
    then have "(ti, tf) \<in> set (endpoints M ts r) \<and>
      align_relationship M ts r = set_field_type ts (fst (ti, tf)) (snd (ti, tf)) (get_field_type ts si sf)"
      by (simp add: ep)
    then show ?thesis by blast
  next
    case up
    then have "align_relationship M ts r = set_field_type ts si sf (get_field_type ts ti tf)"
      using Some e by (simp add: align_relationship_resolve)
    then have "(si, sf) \<in> set (endpoints M ts r) \<and>
      align_relationship M ts r = set_field_type ts (fst (si, sf)) (snd (si, sf)) (get_field_type ts ti tf)"
      by (simp add: ep)
    then show ?thesis by blast
  next
    case same
    then show ?thesis
      using Some e by (simp add: align_relationship_resolve)
  qed
qed

lemma settled_after_step:
  assumes "refs_in_range M (length ts)"
  shows "settled M (align_relationship M ts r) r"
proof (cases "resolve M ts r")
  case None
  then have "align_relationship M ts r = ts" by (simp add: align_relationship_resolve)
  with None show ?thesis by (simp add: settled_def)
next
  case (Some e)
  obtain si sf ti tf where e: "e = ((si, sf), (ti, tf))"
    by (metis prod.exhaust)
  have res: "resolve M ts r = Some ((si, sf), (ti, tf))" using Some e by simp
  from resolve_in_range [OF assms res]
  have rng: "si < length ts" "sf < length (t_fields (ts ! si))"
    "ti < length ts" "tf < length (t_fields (ts ! ti))"
    by simp_all
  let ?ts' = "align_relationship M ts r"
  have res': "resolve M ?ts' r = Some ((si, sf), (ti, tf))"
    using resolve_erase [OF erase_align_relationship assms] res by simp
  let ?a = "getMySQLDataTypeSize (get_field_type ts si sf)"
  let ?b = "getMySQLDataTypeSize (get_field_type ts ti tf)"
  consider (down) "js_gt ?a ?b" | (up) "\<not> js_gt ?a ?b" "js_gt ?b ?a"
    | (same) "\<not> js_gt ?a ?b" "\<not> js_gt ?b ?a"
    by blast
  then show ?thesis
  proof cases
    case down
    then have st: "?ts' = set_field_type ts ti tf (get_field_type ts si sf)"
      using res by (simp add: align_relationship_resolve)
    from down have ne: "(si, sf) \<noteq> (ti, tf)"
      using js_gt_irrefl by auto
    have "get_field_type ?ts' ti tf = get_field_type ts si sf"
      unfolding st using rng by (simp add: get_set_same)
    moreover have "get_field_type ?ts' si sf = get_field_type ts si sf"
      unfolding st using ne by (rule get_set_other)
    ultimately show ?thesis
      using res' by (simp add: settled_def js_gt_irrefl)
  next
    case up
    then have st: "?ts' = set_field_type ts si sf (get_field_type ts ti tf)"
      using res by (simp add: align_relationship_resolve)
    from up have ne: "(ti, tf) \<noteq> (si, sf)"
      using js_gt_irrefl by auto
    have "get_field_type ?ts' si sf = get_field_type ts ti tf"
      unfolding st using rng by (simp add: get_set_same)
    moreover have "get_field_type ?ts' ti tf = get_field_type ts ti tf"
      unfolding st using ne by (rule get_set_other)
    ultimately show ?thesis
      using res' by (simp add: settled_def js_gt_irrefl)
  next
    case same
    then have "?ts' = ts"
      using res by (simp add: align_relationship_resolve)
    then show ?thesis
      using res same by (simp add: settled_def)
  qed
qed

lemma settled_frame:
  assumes "refs_in_range M (length ts)"
    and "\<forall>p \<in> set (endpoints M ts r'). p \<notin> set (endpoints M ts r)"
    and "settled M ts r'"
  shows "settled M (align_relationship M ts r) r'"
proof -
  from align_relationship_cases [of M ts r]
  consider (id) "align_relationship M ts r = ts"
    | (upd) p ty where "p \<in> set (endpoints M ts r)"
        "align_relationship M ts r = set_field_type ts (fst p) (snd p) ty"
    by blast
  then show ?thesis
  proof cases
    case id
    with assms(3) show ?thesis by simp
  next
    case upd
    let ?ts' = "align_relationship M ts r"
    have res': "resolve M ?ts' r' = resolve M ts r'"
      by (rule resolve_erase [OF erase_align_relationship assms(1)])
    show ?thesis
    proof (cases "resolve M ts r'")
      case None
      with res' show ?thesis by (simp add: settled_def)
    next
      case (Some e)
      obtain si sf ti tf where e: "e = ((si, sf), (ti, tf))"
        by (metis prod.exhaust)
      have ep: "endpoints M ts r' = [(si, sf), (ti, tf)]"
        using Some e by (simp add: endpoints_def)
      with assms(2) upd(1) have ne: "(si, sf) \<noteq> (fst p, snd p)" "(ti, tf) \<noteq> (fst p, snd p)"
        by auto
      have "get_field_type ?ts' si sf = get_field_type ts si sf"
        unfolding upd(2) using ne(1) by (rule get_set_other)
      moreover have "get_field_type ?ts' ti tf = get_field_type ts ti tf"
        unfolding upd(2) using ne(2) by (rule get_set_other)
      ultimately show ?thesis
        using assms(3) res' Some e by (simp add: settled_def)
    qed
  qed
qed

lemma settled_frame_foldl:
  assumes "refs_in_range M (length ts)"
    and "\<forall>r' \<in> set rs. \<forall>p \<in> set (endpoints M ts r). p \<notin> set (endpoints M ts r')"
    and "settled M ts r"
  shows "settled M (foldl (align_relationship M) ts rs) r"
  using assms
proof (induction rs arbitrary: ts)
  case Nil
  then show ?case by simp
next
  case (Cons x rs)
  let ?ts' = "align_relationship M ts x"
  have e: "map erase_table_types ?ts' = map erase_table_types ts"
    by (rule erase_align_relationship)
  have len: "length ?ts' = length ts" using e by (rule erase_length)
  have ep: "endpoints M ?ts' q = endpoints M ts q" for q
    by (rule endpoints_erase [OF e Cons.prems(1)])
  have 1: "refs_in_range M (length ?ts')" using Cons.prems(1) len by simp
  have 2: "\<forall>r' \<in> set rs. \<forall>p \<in> set (endpoints M ?ts' r). p \<notin> set (endpoints M ?ts' r')"
    using Cons.prems(2) by (simp add: ep)
  have "\<forall>p \<in> set (endpoints M ts r). p \<notin> set (endpoints M ts x)"
    using Cons.prems(2) by simp
  from settled_frame [OF Cons.prems(1) this Cons.prems(3)]
  have 3: "settled M ?ts' r" .
  from Cons.IH [OF 1 2 3] show ?case by simp
qed

lemma settled_all_after_pass:
  assumes "refs_in_range M (length ts)" and "no_shared_field M ts rs"
  shows "\<forall>r \<in> set rs. settled M (foldl (align_relationship M) ts rs) r"
  using assms
proof (induction rs arbitrary: ts)
  case Nil
  then show ?case by simp
next
  case (Cons x rs)
  let ?ts' = "align_relationship M ts x"
  have e: "map erase_table_types ?ts' = map erase_table_types ts"
    by (rule erase_align_relationship)
  have len: "length ?ts' = length ts" using e by (rule erase_length)
  have ep: "endpoints M ?ts' q = endpoints M ts q" for q
    by (rule endpoints_erase [OF e Cons.prems(1)])
  have 1: "refs_in_range M (length ?ts')" using Cons.prems(1) len by simp
  have 2: "no_shared_field M ?ts' rs"
    using Cons.prems(2) no_shared_field_erase [OF e Cons.prems(1)] by simp
  have rest: "\<forall>r \<in> set rs. settled M (foldl (align_relationship M) ?ts' rs) r"
    by (rule Cons.IH [OF 1 2])
  have apart: "\<forall>r' \<in> set rs. \<forall>p \<in> set (endpoints M ?ts' x). p \<notin> set (endpoints M ?ts' r')"
    using Cons.prems(2) by (auto simp add: ep list_all_iff)
  have "settled M ?ts' x"
    by (rule settled_after_step [OF Cons.prems(1)])
  from settled_frame_foldl [OF 1 apart this]
  have "settled M (foldl (align_relationship M) ?ts' rs) x" .
  with rest show ?case by simp
qed

lemma settled_pass_fixpoint:
  "\<forall>r \<in> set rs. settled M ts r \<Longrightarrow> foldl (align_relationship M) ts rs = ts"
  by (induction rs) (simp_all add: settled_fixpoint)

lemma second_pass_fixpoint:
  assumes "refs_in_range M (length ts)" and "no_shared_field M ts rs"
  shows "foldl (align_relationship M) (foldl (align_relationship M) ts rs) rs
       = foldl (align_relationship M) ts rs"
  by (rule settled_pass_fixpoint) (rule settled_all_after_pass [OF assms])

lemma align_twice:
  assumes "no_shared_endpoint d"
  shows "alignForeignKeyDataTypes (alignForeignKeyDataTypes d) = alignForeignKeyDataTypes d"
proof (cases "tables d")
  case None
  then show ?thesis by (simp add: tables_align_None)
next
  case (Some ts)
  note ts = this
  show ?thesis
  proof (cases "ts = [] \<or> relationships d = None \<or> relationships d = Some []")
    case True
    then have "alignForeignKeyDataTypes d = d"
      using ts by (auto simp add: alignForeignKeyDataTypes_def)
    then show ?thesis by simp
  next
    case False
    then obtain rs where rs: "relationships d = Some rs" "rs \<noteq> []" "ts \<noteq> []"
      by auto
    let ?M = "build_tableMap ts 0 Map.empty"
    let ?ts' = "foldl (align_relationship ?M) ts rs"
    have first: "alignForeignKeyDataTypes d = d\<lparr>tables := Some ?ts'\<rparr>"
      using ts rs by (simp add: alignForeignKeyDataTypes_def)
    have e: "map erase_table_types ?ts' = map erase_table_types ts"
      by (rule erase_foldl_align)
    have ne: "?ts' \<noteq> []"
      using erase_length [OF e] rs(3) by auto
    have M: "build_tableMap ?ts' 0 Map.empty = ?M"
      by (rule build_tableMap_ids) (rule erase_ids [OF e])
    have ns: "no_shared_field ?M ts rs"
      using assms ts rs by (simp add: no_shared_endpoint_def tables_of_def relationships_of_def)
    have fp: "foldl (align_relationship ?M) ?ts' rs = ?ts'"
      by (rule second_pass_fixpoint [OF refs_in_range_build ns])
    have "alignForeignKeyDataTypes (d\<lparr>tables := Some ?ts'\<rparr>) =
          d\<lparr>tables := Some (foldl (align_relationship (build_tableMap ?ts' 0 Map.empty)) ?ts' rs)\<rparr>"
      using rs ne by (simp add: alignForeignKeyDataTypes_def)
    also have "\<dots> = d\<lparr>tables := Some ?ts'\<rparr>"
      by (simp only: M fp)
    finally show ?thesis
      by (simp only: first)
  qed
qed

text \<open>
  C3 as stated says that a second run of the unifier changes nothing. The unifier is one
  forward pass: with \<open>a\<close> (\<open>tinyint\<close>), \<open>b\<close> (\<open>smallint\<close>), \<open>c\<close> (\<open>bigint\<close>) and
  the relationships \<open>a\<close>--\<open>b\<close>, \<open>b\<close>--\<open>c\<close>, the first run widens \<open>a\<close> to \<open>smallint\<close>
  and then \<open>b\<close> to \<open>bigint\<close>; the second run widens \<open>a\<close> again, to \<open>bigint\<close>.
\<close>

theorem unifier_twice_counterexample:
  "field_types (alignForeignKeyDataTypes ex_chain) = [[''smallint'', ''bigint'', ''bigint'']] \<and>
   field_types (alignForeignKeyDataTypes (alignForeignKeyDataTypes ex_chain)) =
     [[''bigint'', ''bigint'', ''bigint'']] \<and>
   alignForeignKeyDataTypes (alignForeignKeyDataTypes ex_chain) \<noteq> alignForeignKeyDataTypes ex_chain"
  by code_simp

text \<open>
  C3, amended: for every diagram in which no field is an endpoint of two relationships (in
  particular for every diagram with a single relationship), running
  \<open>alignForeignKeyDataTypes\<close> a second time on the result of the first run changes
  nothing.
\<close>

theorem unifier_twice_without_shared_fields:
  "no_shared_endpoint d \<Longrightarrow>
     alignForeignKeyDataTypes (alignForeignKeyDataTypes d) = alignForeignKeyDataTypes d"
  by (rule align_twice)

theorem unifier_twice_without_shared_fields_witness:
  "no_shared_endpoint ex_two_keys \<and>
   field_types ex_two_keys = [[''integer'', ''varchar''], [''integer'', ''smallint'']] \<and>
   field_types (alignForeignKeyDataTypes ex_two_keys) =
     [[''integer'', ''integer''], [''integer'', ''integer'']] \<and>
   alignForeignKeyDataTypes (alignForeignKeyDataTypes ex_two_keys) =
     alignForeignKeyDataTypes ex_two_keys"
proof -
  have h: "no_shared_endpoint ex_two_keys" by code_simp
  have b: "field_types ex_two_keys = [[''integer'', ''varchar''], [''integer'', ''smallint'']]"
    by code_simp
  have a: "field_types (alignForeignKeyDataTypes ex_two_keys) =
     [[''integer'', ''integer''], [''integer'', ''integer'']]"
    by code_simp
  show ?thesis
    using h a b unifier_twice_without_shared_fields [OF h] by simp
qed

subsection \<open>C4: the widening rule and the size table\<close>

text \<open>
  For types other than the two inherited keys the code follows the rule of the
  specification.
\<close>

lemma js_gt_Num: "js_gt (Num x) (Num y) = (y < x)"
  by (simp add: js_gt_def)

lemma size_is_spec_size:
  "toLowerCase type \<noteq> ''constructor'' \<Longrightarrow> toLowerCase type \<noteq> ''__proto__'' \<Longrightarrow>
     getMySQLDataTypeSize type = Num (spec_size type)"
  by (simp add: getMySQLDataTypeSize_def spec_size_def Let_def)

lemma align_relationship_is_spec:
  assumes "\<forall>table \<in> set ts. \<forall>field \<in> set (t_fields table).
             toLowerCase (f_type field) \<noteq> ''constructor'' \<and>
             toLowerCase (f_type field) \<noteq> ''__proto__''"
    and "refs_in_range M (length ts)"
  shows "align_relationship M ts r = spec_align_relationship M ts r"
proof (cases "resolve M ts r")
  case None
  then show ?thesis
    by (simp add: align_relationship_resolve spec_align_relationship_def)
next
  case (Some e)
  obtain si sf ti tf where e: "e = ((si, sf), (ti, tf))"
    by (metis prod.exhaust)
  have res: "resolve M ts r = Some ((si, sf), (ti, tf))" using Some e by simp
  from resolve_in_range [OF assms(2) res]
  have rng: "si < length ts" "sf < length (t_fields (ts ! si))"
    "ti < length ts" "tf < length (t_fields (ts ! ti))"
    by simp_all
  have ord: "toLowerCase (get_field_type ts i j) \<noteq> ''constructor'' \<and>
             toLowerCase (get_field_type ts i j) \<noteq> ''__proto__''"
    if "i < length ts" "j < length (t_fields (ts ! i))" for i j
  proof -
    have "ts ! i \<in> set ts" using that(1) by simp
    moreover have "t_fields (ts ! i) ! j \<in> set (t_fields (ts ! i))" using that(2) by simp
    ultimately show ?thesis
      using assms(1) unfolding get_field_type_def by blast
  qed
  have a: "getMySQLDataTypeSize (get_field_type ts si sf) = Num (spec_size (get_field_type ts si sf))"
    using ord [OF rng(1,2)] by (simp add: size_is_spec_size)
  have b: "getMySQLDataTypeSize (get_field_type ts ti tf) = Num (spec_size (get_field_type ts ti tf))"
    using ord [OF rng(3,4)] by (simp add: size_is_spec_size)
  show ?thesis
    using res by (simp add: align_relationship_resolve spec_align_relationship_def a b js_gt_Num)
qed

text \<open>
  C4 at a type named \<open>constructor\<close>: the specification gives it weight 0, below
  \<open>integer\<close> (weight 4), so the rule overwrites the source type with \<open>integer\<close>. In the
  code the lookup returns the function \<open>Object\<close>, which is neither greater nor smaller
  than 4 (the comparison is with \<open>NaN\<close>), and both types stay as they are.
\<close>

theorem inherited_key_is_not_widened:
  "spec_size ''constructor'' = 0 \<and> spec_size ''integer'' = 4 \<and>
   field_types (ex_inherited\<lparr>tables := Some
      (spec_align_relationship (build_tableMap ex_inherited_tables 0 Map.empty)
         ex_inherited_tables ex_inherited_fk)\<rparr>) = [[''integer''], [''integer'']] \<and>
   getMySQLDataTypeSize ''constructor'' = ObjectConstructor \<and>
   field_types (alignForeignKeyDataTypes ex_inherited) = [[''constructor''], [''integer'']] \<and>
   alignForeignKeyDataTypes ex_inherited = ex_inherited"
  by code_simp

subsection \<open>C5: unresolved relationships, and the place of the foreign keys\<close>

lemma emit_table_parts:
  "emit_table [] t = emit_create_table [] t @ concat (map (emit_index t []) (t_indexes t)) @ ''\<newline>''"
  using foldl_concat [of "emit_index t" "emit_create_table [] t" "t_indexes t", OF emit_index_prefix]
  by (simp add: emit_table_def)

lemma emit_relationship_statement:
  assumes "rel_resolves nvts r"
  shows "\<exists>st tt sf tf.
     find (\<lambda>table. t_id table = sourceTableId r) nvts = Some st \<and>
     find (\<lambda>table. t_id table = targetTableId r) nvts = Some tt \<and>
     find (\<lambda>field. f_id field = sourceFieldId r) (t_fields st) = Some sf \<and>
     find (\<lambda>field. f_id field = targetFieldId r) (t_fields tt) = Some tf \<and>
     emit_relationship nvts acc r =
       acc @ ''ALTER TABLE '' @ t_name st @ '' ADD CONSTRAINT '' @ r_name r @
       '' FOREIGN KEY ('' @ f_name sf @ '') REFERENCES '' @ t_name tt @
       '' ('' @ f_name tf @ '');\<newline>''"
  using assms
  by (auto simp add: rel_resolves_def emit_relationship_def Let_def split: option.splits)

lemma exportBaseSQL_resolved_only:
  "fst (exportBaseSQL d) =
     concat (map (emit_table []) (nonViewTables_of d)) @
     concat (map (emit_relationship (nonViewTables_of d) [])
               (filter (rel_resolves (nonViewTables_of d)) (relationships_of d)))"
proof -
  have "concat (map (emit_relationship (nonViewTables_of d) [])
               (filter (rel_resolves (nonViewTables_of d)) (relationships_of d)))
        = concat (map (emit_relationship (nonViewTables_of d) []) (relationships_of d))"
    by (rule concat_map_unresolved) (rule emit_relationship_unresolved)
  then show ?thesis
    by (simp add: exportBaseSQL_sections)
qed

text \<open>Lines of a text that ends a line, followed by another text.\<close>

lemma split_from_newline:
  "split_from line (x @ CHR ''\<newline>'' # y) = split_from line x @ split_from [] y"
  by (induction x arbitrary: line) simp_all

lemma split_lines_terminated:
  assumes "t = [] \<or> last t = CHR ''\<newline>''"
  shows "split_lines (t @ a) = butlast (split_lines t) @ split_lines a"
proof (cases "t = []")
  case True
  then show ?thesis by (simp add: split_lines_def)
next
  case False
  with assms obtain x where t: "t = x @ [CHR ''\<newline>'']"
    by (metis append_butlast_last_id)
  have "split_lines (t @ a) = split_from [] x @ split_from [] a"
    unfolding split_lines_def t using split_from_newline [of "[]" x a] by simp
  moreover have "split_lines t = split_from [] x @ [[]]"
    unfolding split_lines_def t using split_from_newline [of "[]" x "[]"] by simp
  ultimately show ?thesis by (simp add: split_lines_def)
qed

lemma heads_split_from:
  "map hd (filter (\<lambda>l. l \<noteq> []) (split_from line s)) =
     (if line = [] then heads True s else hd line # heads False s)"
  by (induction s arbitrary: line) simp_all

lemma heads_split_lines:
  "map hd (filter (\<lambda>l. l \<noteq> []) (split_lines s)) = heads True s"
  by (simp add: split_lines_def heads_split_from)

lemma line_head:
  assumes "l \<in> set (split_lines s)" and "l \<noteq> []"
  shows "hd l \<in> set (heads True s)"
proof -
  from assms have "hd l \<in> set (map hd (filter (\<lambda>l. l \<noteq> []) (split_lines s)))"
    by auto
  then show ?thesis by (simp only: heads_split_lines)
qed

lemma heads_False_subset: "set (heads False s) \<subseteq> set (heads True s)"
  by (induction s) auto

lemma heads_append_subset:
  "set (heads b (x @ y)) \<subseteq> set (heads b x) \<union> set (heads True y)"
proof (induction x arbitrary: b)
  case Nil
  show ?case using heads_False_subset [of y] by (cases b) auto
next
  case (Cons c x)
  show ?case using Cons.IH [of True] Cons.IH [of False] by auto
qed

lemma heads_one_line: "one_line x \<Longrightarrow> heads False (x @ z) = heads False z"
  by (induction x) (auto simp add: one_line_def)

lemma heads_one_line_Nil: "one_line x \<Longrightarrow> heads False x = []"
  using heads_one_line [of x "[]"] by simp

lemma is_alter_line_head: "is_alter_line l \<Longrightarrow> l \<noteq> [] \<and> hd l = CHR ''A''"
  by (cases l) (auto simp add: is_alter_line_def)

lemma is_create_line_head: "is_create_line l \<Longrightarrow> l \<noteq> [] \<and> hd l = CHR ''C''"
  by (cases l) (auto simp add: is_create_line_def)

lemma alter_after_create:
  assumes t: "t = [] \<or> last t = CHR ''\<newline>''"
    and nt: "CHR ''A'' \<notin> set (heads True t)"
    and na: "CHR ''C'' \<notin> set (heads True a)"
    and i: "i < length (split_lines (t @ a))" "is_alter_line (split_lines (t @ a) ! i)"
    and j: "j < length (split_lines (t @ a))" "is_create_line (split_lines (t @ a) ! j)"
  shows "j < i"
proof -
  let ?X = "butlast (split_lines t)"
  let ?Y = "split_lines a"
  have ls: "split_lines (t @ a) = ?X @ ?Y" using t by (rule split_lines_terminated)
  have noA: "\<not> is_alter_line l" if "l \<in> set ?X" for l
  proof
    assume a: "is_alter_line l"
    from that have "l \<in> set (split_lines t)" by (rule in_set_butlastD)
    with a nt show False using line_head is_alter_line_head by metis
  qed
  have noC: "\<not> is_create_line l" if "l \<in> set ?Y" for l
    using that na line_head is_create_line_head by metis
  have "\<not> i < length ?X"
  proof
    assume "i < length ?X"
    then have "(?X @ ?Y) ! i \<in> set ?X" by (simp add: nth_append)
    with noA i(2) ls show False by simp
  qed
  moreover have "j < length ?X"
  proof (rule ccontr)
    assume "\<not> j < length ?X"
    then have "(?X @ ?Y) ! j = ?Y ! (j - length ?X)" "j - length ?X < length ?Y"
      using j(1) ls by (simp_all add: nth_append)
    then have "(?X @ ?Y) ! j \<in> set ?Y" by simp
    with noC j(2) ls show False by simp
  qed
  ultimately show ?thesis by simp
qed

text \<open>
  What the emitter writes for a diagram without line breaks: every line of the table
  section begins with \<open>C\<close>, a space or \<open>)\<close>, every line of the foreign keys with \<open>A\<close>.
\<close>

lemma digit_char_one_line: "d < 10 \<Longrightarrow> digit_char d \<noteq> CHR ''\<newline>''"
proof
  assume d: "d < 10" and e: "digit_char d = CHR ''\<newline>''"
  from e have "(of_char (digit_char d) :: nat) = of_char (CHR ''\<newline>'')" by simp
  with d show False by (simp add: digit_char_def)
qed

lemma show_nat_one_line: "one_line (show_nat n)"
proof (induction n rule: show_nat.induct)
  case (1 n)
  show ?case
  proof (cases "n < 10")
    case True
    then show ?thesis using digit_char_one_line [of n] by (simp add: one_line_def)
  next
    case False
    have "n mod 10 < 10" by simp
    then have "digit_char (n mod 10) \<noteq> CHR ''\<newline>''" by (rule digit_char_one_line)
    with False 1 show ?thesis
      by (subst show_nat.simps) (auto simp add: one_line_def)
  qed
qed

lemma show_num_one_line: "one_line (show_num x)"
  using show_nat_one_line
  by (cases x) (auto simp add: show_num_def show_int_def one_line_def)

lemma one_line_append [simp]: "one_line (x @ y) = (one_line x \<and> one_line y)"
  by (auto simp add: one_line_def)

lemma one_line_Cons [simp]: "one_line (c # x) = (c \<noteq> CHR ''\<newline>'' \<and> one_line x)"
  by (auto simp add: one_line_def)

lemma one_line_Nil [simp]: "one_line []"
  by (simp add: one_line_def)

lemma join_one_line:
  "one_line sep \<Longrightarrow> \<forall>x \<in> set xs. one_line x \<Longrightarrow> one_line (join sep xs)"
  by (induction sep xs rule: join.induct) simp_all

lemma heads_field:
  assumes "one_line_field field"
  shows "set (heads b (emit_field len [] (index, field))) \<subseteq> {CHR '' ''}"
proof -
  from assms have n: "one_line (f_name field)" and t: "one_line (f_type field)"
    and d: "one_line (show_str (f_default field))"
    by (auto simp add: one_line_field_def show_str_def split: option.splits)
  let ?body = "f_name field @ '' '' @ f_type field @
     (if truthy_num (characterMaximumLength field)
      then ''('' @ show_num (characterMaximumLength field) @ '')'' else []) @
     (if truthy_num (precision field) \<and> truthy_num (scale field)
      then ''('' @ show_num (precision field) @ '', '' @ show_num (scale field) @ '')''
      else if truthy_num (precision field) then ''('' @ show_num (precision field) @ '')''
      else []) @
     (if \<not> nullable field then '' NOT NULL'' else []) @
     (if truthy_str (f_default field) then '' DEFAULT '' @ show_str (f_default field) else []) @
     (if primaryKey field then '' PRIMARY KEY'' else [])"
  have body: "one_line ?body"
    using n t d by (simp add: show_num_one_line)
  have e: "emit_field len [] (index, field) =
      ''  '' @ ?body @ (if int index < int len - 1 then '',\<newline>'' else [])"
    by (simp add: emit_field_def Let_def)
  have h: "heads b (''  '' @ ?body @ z) = (if b then '' '' else []) @ heads False z" for z
    using heads_one_line [OF body, of z] by simp
  have "set (heads b (''  '' @ ?body @ z)) \<subseteq> {CHR '' ''} \<union> set (heads False z)" for z
    unfolding h by auto
  from this [of "if int index < int len - 1 then '',\<newline>'' else []"] show ?thesis
    unfolding e by (auto split: if_splits)
qed

lemma heads_concat:
  assumes "\<And>x b. x \<in> set xs \<Longrightarrow> set (heads b (f x)) \<subseteq> S"
  shows "set (heads b (concat (map f xs))) \<subseteq> S"
  using assms
proof (induction xs arbitrary: b)
  case Nil
  then show ?case by simp
next
  case (Cons x xs)
  have "set (heads b (f x @ concat (map f xs))) \<subseteq> set (heads b (f x)) \<union> set (heads True (concat (map f xs)))"
    by (rule heads_append_subset)
  moreover have "set (heads b (f x)) \<subseteq> S" using Cons.prems by simp
  moreover have "set (heads True (concat (map f xs))) \<subseteq> S"
    using Cons.IH Cons.prems by simp
  ultimately show ?case by auto
qed

lemma heads_fields:
  assumes "list_all one_line_field fs"
  shows "set (heads b (foldl (emit_field len) [] (enumerate n fs))) \<subseteq> {CHR '' ''}"
proof -
  have c: "foldl (emit_field len) [] (enumerate n fs)
           = concat (map (emit_field len []) (enumerate n fs))"
    using foldl_concat [of "emit_field len" "[]" "enumerate n fs", OF emit_field_prefix] by simp
  have "set (heads b' (emit_field len [] p)) \<subseteq> {CHR '' ''}"
    if "p \<in> set (enumerate n fs)" for p b'
  proof -
    obtain i f where p: "p = (i, f)" by (cases p)
    with that have "f \<in> set fs" by (auto simp add: in_set_enumerate_eq)
    with assms have "one_line_field f" by (simp add: list_all_iff)
    then show ?thesis unfolding p by (rule heads_field)
  qed
  then show ?thesis unfolding c by (rule heads_concat)
qed

lemma heads_create_table:
  assumes "one_line_table table"
  shows "set (heads b (emit_create_table [] table)) \<subseteq> {CHR ''C'', CHR '' '', CHR '')''}"
proof -
  let ?F = "foldl (emit_field (length (t_fields table))) [] (enumerate 0 (t_fields table))"
  from assms have n: "one_line (t_name table)" and fs: "list_all one_line_field (t_fields table)"
    by (simp_all add: one_line_table_def)
  have e: "emit_create_table [] table =
      ''CREATE TABLE '' @ t_name table @ '' (\<newline>'' @ ?F @ ''\<newline>);\<newline>\<newline>''"
    using foldl_prefix [of "emit_field (length (t_fields table))"
        "''CREATE TABLE '' @ t_name table @ '' (\<newline>''" "[]", OF emit_field_prefix]
    by (simp add: emit_create_table_def)
  have h: "heads b (''CREATE TABLE '' @ t_name table @ '' (\<newline>'' @ z)
           = (if b then ''C'' else []) @ heads True z" for z
    using heads_one_line [OF n, of "'' (\<newline>'' @ z"] by simp
  have "set (heads True (?F @ ''\<newline>);\<newline>\<newline>''))
        \<subseteq> set (heads True ?F) \<union> set (heads True ''\<newline>);\<newline>\<newline>'')"
    by (rule heads_append_subset)
  moreover have "set (heads True ?F) \<subseteq> {CHR '' ''}"
    using fs by (rule heads_fields)
  ultimately show ?thesis
    unfolding e h by auto
qed

lemma filter_Boolean_set:
  "s \<in> set (filter_Boolean xs) \<Longrightarrow> Some s \<in> set xs"
  by (induction xs rule: filter_Boolean.induct) (auto split: if_splits)

lemma find_in_set: "find P xs = Some x \<Longrightarrow> x \<in> set xs"
  by (auto simp add: find_Some_iff)

lemma map_option_SomeD: "Some s = map_option f x \<Longrightarrow> \<exists>z. x = Some z \<and> s = f z"
  by (cases x) auto

lemma index_fieldNames_one_line:
  assumes "list_all one_line_field (t_fields table)"
  shows "one_line (index_fieldNames table index)"
proof -
  have "one_line s"
    if "s \<in> set (filter_Boolean (map (\<lambda>fieldId. map_option f_name
          (find (\<lambda>field. f_id field = fieldId) (t_fields table))) (fieldIds index)))" for s
  proof -
    from that have "Some s \<in> set (map (\<lambda>fieldId. map_option f_name
          (find (\<lambda>field. f_id field = fieldId) (t_fields table))) (fieldIds index))"
      by (rule filter_Boolean_set)
    then have "\<exists>field \<in> set (t_fields table). s = f_name field"
      by (auto dest!: map_option_SomeD dest: find_in_set)
    with assms show ?thesis by (auto simp add: list_all_iff one_line_field_def)
  qed
  then show ?thesis
    unfolding index_fieldNames_def by (intro join_one_line) simp_all
qed

lemma heads_index:
  assumes "one_line_table table" and "index \<in> set (t_indexes table)"
  shows "set (heads b (emit_index table [] index)) \<subseteq> {CHR ''C''}"
proof -
  from assms have n: "one_line (t_name table)" and i: "one_line (i_name index)"
    and fs: "list_all one_line_field (t_fields table)"
    by (simp_all add: one_line_table_def list_all_iff)
  let ?body = "(if i_unique index then ''UNIQUE '' else []) @ ''INDEX '' @ i_name index @
      '' ON '' @ t_name table @ '' ('' @ index_fieldNames table index @ '');''"
  have body: "one_line ?body"
    using n i index_fieldNames_one_line [OF fs, of index] by simp
  have h: "heads b (''CREATE '' @ ?body @ z) = (if b then ''C'' else []) @ heads False z" for z
    using heads_one_line [OF body, of z] by simp
  have e: "emit_index table [] index = [] \<or>
           emit_index table [] index = ''CREATE '' @ ?body @ ''\<newline>''"
    by (simp add: emit_index_def Let_def)
  then show ?thesis
  proof
    assume "emit_index table [] index = []"
    then show ?thesis by simp
  next
    assume "emit_index table [] index = ''CREATE '' @ ?body @ ''\<newline>''"
    then show ?thesis by (simp only: h) auto
  qed
qed

lemma heads_table:
  assumes "one_line_table table"
  shows "set (heads b (emit_table [] table)) \<subseteq> {CHR ''C'', CHR '' '', CHR '')''}"
proof -
  let ?I = "concat (map (emit_index table []) (t_indexes table))"
  have e: "emit_table [] table = emit_create_table [] table @ (?I @ ''\<newline>'')"
    by (simp add: emit_table_parts)
  have 1: "set (heads b (emit_create_table [] table)) \<subseteq> {CHR ''C'', CHR '' '', CHR '')''}"
    using assms by (rule heads_create_table)
  have "set (heads True ?I) \<subseteq> {CHR ''C''}"
    by (rule heads_concat) (rule heads_index [OF assms])
  moreover have "set (heads True (?I @ ''\<newline>'')) \<subseteq> set (heads True ?I) \<union> set (heads True ''\<newline>'')"
    by (rule heads_append_subset)
  ultimately have 2: "set (heads True (?I @ ''\<newline>'')) \<subseteq> {CHR ''C''}"
    by auto
  have "set (heads b (emit_table [] table))
        \<subseteq> set (heads b (emit_create_table [] table)) \<union> set (heads True (?I @ ''\<newline>''))"
    unfolding e by (rule heads_append_subset)
  with 1 2 show ?thesis by auto
qed

lemma heads_relationship:
  assumes "list_all one_line_table nvts" and "one_line (r_name r)"
  shows "set (heads b (emit_relationship nvts [] r)) \<subseteq> {CHR ''A''}"
proof (cases "rel_resolves nvts r")
  case False
  then show ?thesis by (simp add: emit_relationship_unresolved)
next
  case True
  from emit_relationship_statement [OF True, of "[]"]
  obtain st tt sf tf where f:
    "find (\<lambda>table. t_id table = sourceTableId r) nvts = Some st"
    "find (\<lambda>table. t_id table = targetTableId r) nvts = Some tt"
    "find (\<lambda>field. f_id field = sourceFieldId r) (t_fields st) = Some sf"
    "find (\<lambda>field. f_id field = targetFieldId r) (t_fields tt) = Some tf"
    and e: "emit_relationship nvts [] r =
       ''ALTER TABLE '' @ t_name st @ '' ADD CONSTRAINT '' @ r_name r @
       '' FOREIGN KEY ('' @ f_name sf @ '') REFERENCES '' @ t_name tt @
       '' ('' @ f_name tf @ '');\<newline>''"
    by auto
  from f(1,2) assms(1) have st: "one_line_table st" and tt: "one_line_table tt"
    by (auto dest!: find_in_set simp add: list_all_iff)
  from f(3) st have sf: "one_line (f_name sf)"
    by (auto dest!: find_in_set simp add: list_all_iff one_line_table_def one_line_field_def)
  from f(4) tt have tf: "one_line (f_name tf)"
    by (auto dest!: find_in_set simp add: list_all_iff one_line_table_def one_line_field_def)
  let ?body = "t_name st @ '' ADD CONSTRAINT '' @ r_name r @
       '' FOREIGN KEY ('' @ f_name sf @ '') REFERENCES '' @ t_name tt @
       '' ('' @ f_name tf @ '');''"
  have body: "one_line ?body"
    using st tt sf tf assms(2) by (simp add: one_line_table_def)
  have h: "heads b (''ALTER TABLE '' @ ?body @ z) = (if b then ''A'' else []) @ heads False z" for z
    using heads_one_line [OF body, of z] by simp
  have "emit_relationship nvts [] r = ''ALTER TABLE '' @ ?body @ ''\<newline>''"
    unfolding e by simp
  then show ?thesis by (simp only: h) auto
qed

lemma concat_terminated:
  assumes "\<And>x. x \<in> set xs \<Longrightarrow> f x \<noteq> [] \<and> last (f x) = c"
  shows "concat (map f xs) = [] \<or> last (concat (map f xs)) = c"
  using assms by (induction xs) (auto simp add: last_append)

lemma emit_table_terminated:
  "emit_table [] table \<noteq> [] \<and> last (emit_table [] table) = CHR ''\<newline>''"
  by (simp add: emit_table_parts)

text \<open>The unifier copies types, so it brings no line break into a diagram.\<close>

lemma list_all_update:
  "list_all P xs \<Longrightarrow> P y \<Longrightarrow> list_all P (xs[i := y])"
  using set_update_subset_insert [of xs i y] by (auto simp add: list_all_iff)

lemma one_line_set_field_type:
  assumes "list_all one_line_table ts" and "one_line ty"
  shows "list_all one_line_table (set_field_type ts ti fi ty)"
proof (cases "ti < length ts")
  case False
  then show ?thesis using assms(1) by (simp add: set_field_type_def list_update_beyond)
next
  case True
  let ?t = "ts ! ti"
  let ?fs = "t_fields ?t"
  from True assms(1) have t: "one_line_table ?t" by (simp add: list_all_iff)
  have fs: "list_all one_line_field (?fs[fi := (?fs ! fi)\<lparr>f_type := ty\<rparr>])"
  proof (cases "fi < length ?fs")
    case False
    then show ?thesis using t by (simp add: one_line_table_def list_update_beyond)
  next
    case True
    with t have "one_line_field (?fs ! fi)" by (simp add: one_line_table_def list_all_iff)
    then have "one_line_field ((?fs ! fi)\<lparr>f_type := ty\<rparr>)"
      using assms(2) by (simp add: one_line_field_def)
    with t show ?thesis by (simp add: one_line_table_def list_all_update)
  qed
  have "one_line_table (?t\<lparr>t_fields := ?fs[fi := (?fs ! fi)\<lparr>f_type := ty\<rparr>]\<rparr>)"
    using t fs by (simp add: one_line_table_def)
  with assms(1) show ?thesis
    unfolding set_field_type_def by (rule list_all_update)
qed

lemma get_field_type_one_line:
  assumes "list_all one_line_table ts" and "ti < length ts" and "fi < length (t_fields (ts ! ti))"
  shows "one_line (get_field_type ts ti fi)"
proof -
  from assms(1,2) have "one_line_table (ts ! ti)" by (simp add: list_all_iff)
  with assms(3) have "one_line_field (t_fields (ts ! ti) ! fi)"
    by (simp add: one_line_table_def list_all_iff)
  then show ?thesis by (simp add: get_field_type_def one_line_field_def)
qed

lemma one_line_align_relationship:
  assumes "refs_in_range M (length ts)" and "list_all one_line_table ts"
  shows "list_all one_line_table (align_relationship M ts r)"
proof (cases "resolve M ts r")
  case None
  then show ?thesis using assms(2) by (simp add: align_relationship_resolve)
next
  case (Some e)
  obtain si sf ti tf where e: "e = ((si, sf), (ti, tf))"
    by (metis prod.exhaust)
  have res: "resolve M ts r = Some ((si, sf), (ti, tf))" using Some e by simp
  from resolve_in_range [OF assms(1) res]
  have rng: "si < length ts" "sf < length (t_fields (ts ! si))"
    "ti < length ts" "tf < length (t_fields (ts ! ti))"
    by simp_all
  have s: "one_line (get_field_type ts si sf)"
    by (rule get_field_type_one_line [OF assms(2) rng(1,2)])
  have t: "one_line (get_field_type ts ti tf)"
    by (rule get_field_type_one_line [OF assms(2) rng(3,4)])
  show ?thesis
    using res assms(2) s t
    by (simp add: align_relationship_resolve one_line_set_field_type)
qed

lemma one_line_foldl_align:
  assumes "refs_in_range M (length ts)" and "list_all one_line_table ts"
  shows "list_all one_line_table (foldl (align_relationship M) ts rs)"
  using assms
proof (induction rs arbitrary: ts)
  case Nil
  then show ?case by simp
next
  case (Cons r rs)
  have "length (align_relationship M ts r) = length ts"
    using erase_align_relationship by (rule erase_length)
  with Cons.prems(1) have 1: "refs_in_range M (length (align_relationship M ts r))" by simp
  have 2: "list_all one_line_table (align_relationship M ts r)"
    by (rule one_line_align_relationship [OF Cons.prems])
  from Cons.IH [OF 1 2] show ?case by simp
qed

lemma one_line_tables_align:
  assumes "list_all one_line_table (tables_of d)"
  shows "list_all one_line_table (tables_of (alignForeignKeyDataTypes d))"
proof (cases "tables d")
  case None
  then show ?thesis using assms by (simp add: tables_align_None)
next
  case (Some ts)
  have "list_all one_line_table (foldl (align_relationship (build_tableMap ts 0 Map.empty)) ts rs)"
    for rs
    using assms Some by (intro one_line_foldl_align refs_in_range_build) (simp add: tables_of_def)
  then show ?thesis
    using assms Some
    by (simp add: alignForeignKeyDataTypes_def tables_of_def split: option.splits)
qed

lemma script_lines_ordered:
  assumes "no_line_breaks d"
    and "i < length (split_lines (fst (exportBaseSQL d)))"
    and "is_alter_line (split_lines (fst (exportBaseSQL d)) ! i)"
    and "j < length (split_lines (fst (exportBaseSQL d)))"
    and "is_create_line (split_lines (fst (exportBaseSQL d)) ! j)"
  shows "j < i"
proof -
  let ?T = "concat (map (emit_table []) (nonViewTables_of d))"
  let ?A = "concat (map (emit_relationship (nonViewTables_of d) []) (relationships_of d))"
  have s: "fst (exportBaseSQL d) = ?T @ ?A" by (rule exportBaseSQL_sections)
  from assms(1) have "list_all one_line_table (tables_of (alignForeignKeyDataTypes d))"
    by (simp add: no_line_breaks_def one_line_tables_align)
  then have nv: "list_all one_line_table (nonViewTables_of d)"
    by (simp add: nonViewTables_of_def list_all_iff)
  have t: "?T = [] \<or> last ?T = CHR ''\<newline>''"
    by (rule concat_terminated) (rule emit_table_terminated)
  have "set (heads True ?T) \<subseteq> {CHR ''C'', CHR '' '', CHR '')''}"
  proof (rule heads_concat)
    fix x b
    assume "x \<in> set (nonViewTables_of d)"
    with nv have "one_line_table x" by (simp add: list_all_iff)
    then show "set (heads b (emit_table [] x)) \<subseteq> {CHR ''C'', CHR '' '', CHR '')''}"
      by (rule heads_table)
  qed
  then have nt: "CHR ''A'' \<notin> set (heads True ?T)" by auto
  have "set (heads True ?A) \<subseteq> {CHR ''A''}"
  proof (rule heads_concat)
    fix x b
    assume "x \<in> set (relationships_of d)"
    with assms(1) have "one_line (r_name x)" by (simp add: no_line_breaks_def list_all_iff)
    with nv show "set (heads b (emit_relationship (nonViewTables_of d) [] x)) \<subseteq> {CHR ''A''}"
      by (rule heads_relationship)
  qed
  then have na: "CHR ''C'' \<notin> set (heads True ?A)" by auto
  show ?thesis
    using alter_after_create [OF t nt na] assms(2-5) unfolding s by blast
qed

text \<open>
  C5 as stated orders the lines of the script of every diagram. Names, types and defaults
  are copied into the script as they are, so a line break in one of them starts a line of
  its own: with a line break in the name of the foreign key, line 13 of the script begins
  with \<open>ALTER TABLE\<close> and line 14 with \<open>CREATE TABLE\<close>.
\<close>

theorem alter_line_before_create_line_counterexample:
  "split_lines (fst (exportBaseSQL ex_injected)) ! 12 =
     ''ALTER TABLE orders ADD CONSTRAINT fk_orders_user'' \<and>
   split_lines (fst (exportBaseSQL ex_injected)) ! 13 =
     ''CREATE TABLE extra FOREIGN KEY (user_id) REFERENCES users (id);'' \<and>
   is_alter_line (split_lines (fst (exportBaseSQL ex_injected)) ! 12) \<and>
   is_create_line (split_lines (fst (exportBaseSQL ex_injected)) ! 13) \<and>
   length (split_lines (fst (exportBaseSQL ex_injected))) = 15"
  by code_simp

text \<open>
  C5, amended: a relationship that does not resolve against the non-view tables (source
  table, target table, source field or target field not found) adds nothing to the script,
  and the emitter has no failing branch; the script is the section of the tables followed
  by the statements of the resolving relationships, in relationship order. For every
  diagram in which no table name, field name, field type, field default, index name or
  relationship name holds a line break, every line of the script that begins with
  \<open>ALTER TABLE\<close> comes strictly after every line that begins with \<open>CREATE TABLE\<close>,
  \<open>CREATE INDEX\<close> or \<open>CREATE UNIQUE INDEX\<close>.
\<close>

theorem alter_lines_after_create_lines:
  "(\<not> rel_resolves nvts r \<longrightarrow> emit_relationship nvts sqlScript r = sqlScript) \<and>
   fst (exportBaseSQL d) =
     concat (map (emit_table []) (nonViewTables_of d)) @
     concat (map (emit_relationship (nonViewTables_of d) [])
               (filter (rel_resolves (nonViewTables_of d)) (relationships_of d))) \<and>
   (no_line_breaks d \<longrightarrow>
      (\<forall>i j. i < length (split_lines (fst (exportBaseSQL d))) \<and>
             j < length (split_lines (fst (exportBaseSQL d))) \<and>
             is_alter_line (split_lines (fst (exportBaseSQL d)) ! i) \<and>
             is_create_line (split_lines (fst (exportBaseSQL d)) ! j) \<longrightarrow> j < i))"
proof (intro conjI impI allI)
  assume "\<not> rel_resolves nvts r"
  then show "emit_relationship nvts sqlScript r = sqlScript"
    by (rule emit_relationship_unresolved)
next
  show "fst (exportBaseSQL d) =
     concat (map (emit_table []) (nonViewTables_of d)) @
     concat (map (emit_relationship (nonViewTables_of d) [])
               (filter (rel_resolves (nonViewTables_of d)) (relationships_of d)))"
    by (rule exportBaseSQL_resolved_only)
next
  fix i j
  assume "no_line_breaks d"
    and "i < length (split_lines (fst (exportBaseSQL d))) \<and>
         j < length (split_lines (fst (exportBaseSQL d))) \<and>
         is_alter_line (split_lines (fst (exportBaseSQL d)) ! i) \<and>
         is_create_line (split_lines (fst (exportBaseSQL d)) ! j)"
  then show "j < i"
    using script_lines_ordered by blast
qed

theorem alter_lines_after_create_lines_witness:
  "\<not> rel_resolves (nonViewTables_of ex_diagram) ex_dangling \<and>
   emit_relationship (nonViewTables_of ex_diagram) ''-- '' ex_dangling = ''-- '' \<and>
   no_line_breaks ex_diagram \<and>
   length (split_lines (fst (exportBaseSQL ex_diagram))) = 14 \<and>
   split_lines (fst (exportBaseSQL ex_diagram)) ! 12 =
     ''ALTER TABLE orders ADD CONSTRAINT fk_orders_user FOREIGN KEY (user_id) REFERENCES users (id);'' \<and>
   split_lines (fst (exportBaseSQL ex_diagram)) ! 6 = ''CREATE TABLE orders ('' \<and>
   is_alter_line (split_lines (fst (exportBaseSQL ex_diagram)) ! 12) \<and>
   is_create_line (split_lines (fst (exportBaseSQL ex_diagram)) ! 6) \<and>
   (6 :: nat) < 12"
proof -
  have h1: "\<not> rel_resolves (nonViewTables_of ex_diagram) ex_dangling" by code_simp
  have h2: "no_line_breaks ex_diagram" by code_simp
  have n: "length (split_lines (fst (exportBaseSQL ex_diagram))) = 14" by code_simp
  have a: "split_lines (fst (exportBaseSQL ex_diagram)) ! 12 =
     ''ALTER TABLE orders ADD CONSTRAINT fk_orders_user FOREIGN KEY (user_id) REFERENCES users (id);''"
    by code_simp
  have c: "split_lines (fst (exportBaseSQL ex_diagram)) ! 6 = ''CREATE TABLE orders (''"
    by code_simp
  have ia: "is_alter_line (split_lines (fst (exportBaseSQL ex_diagram)) ! 12)" by code_simp
  have ic: "is_create_line (split_lines (fst (exportBaseSQL ex_diagram)) ! 6)" by code_simp
  note t = alter_lines_after_create_lines [of "nonViewTables_of ex_diagram" ex_dangling "''-- ''" ex_diagram]
  from t h1 have c1: "emit_relationship (nonViewTables_of ex_diagram) ''-- '' ex_dangling = ''-- ''"
    by blast
  have i: "(12 :: nat) < length (split_lines (fst (exportBaseSQL ex_diagram)))"
    and j: "(6 :: nat) < length (split_lines (fst (exportBaseSQL ex_diagram)))"
    by (simp_all add: n)
  from t h2 i j ia ic have c2: "(6 :: nat) < 12" by blast
  show ?thesis
    using h1 c1 h2 n a c ia ic c2 by blast
qed

subsection \<open>C6: index lines\<close>








subsection \<open>C7: no tables, or only views\<close>

lemma all_views_no_nonView:
  assumes "\<forall>t \<in> set (tables_of d). isView t"
  shows "nonViewTables_of d = []"
proof -
  have "map isView (tables_of (alignForeignKeyDataTypes d)) = map isView (tables_of d)"
    using tables_of_erase [of d] by (rule erase_views)
  then have "set (map isView (tables_of (alignForeignKeyDataTypes d))) = set (map isView (tables_of d))"
    by simp
  then have "isView ` set (tables_of (alignForeignKeyDataTypes d)) \<subseteq> {True}"
    using assms by auto
  then show ?thesis
    by (auto simp add: nonViewTables_of_def filter_empty_conv)
qed

text \<open>
  C7: when \<open>tables\<close> is absent or empty, \<open>exportBaseSQL\<close> returns the empty string (and
  leaves the diagram alone); when every table is a view the script is empty as well,
  whatever the relationships refer to: no \<open>CREATE TABLE\<close>, no \<open>CREATE INDEX\<close>, no
  \<open>ALTER TABLE\<close>.
\<close>

theorem no_tables_or_only_views:
  "(tables d = None \<or> tables d = Some [] \<longrightarrow> exportBaseSQL d = ([], d)) \<and>
   ((\<forall>t \<in> set (tables_of d). isView t) \<longrightarrow> fst (exportBaseSQL d) = [])"
proof (intro conjI impI)
  assume "tables d = None \<or> tables d = Some []"
  then show "exportBaseSQL d = ([], d)"
    by (auto simp add: exportBaseSQL_def)
next
  assume "\<forall>t \<in> set (tables_of d). isView t"
  then have "nonViewTables_of d = []" by (rule all_views_no_nonView)
  then show "fst (exportBaseSQL d) = []"
    by (simp add: exportBaseSQL_sections emit_relationship_Nil)
qed

theorem no_tables_or_only_views_witness:
  "tables ex_no_tables = Some [] \<and> exportBaseSQL ex_no_tables = ([], ex_no_tables) \<and>
   list_all isView (tables_of ex_views) \<and> relationships ex_views = Some [ex_fk] \<and>
   fst (exportBaseSQL ex_views) = []"
proof -
  have h1: "tables ex_no_tables = Some []" by (simp add: ex_no_tables_def)
  have h2: "list_all isView (tables_of ex_views)" by (simp add: ex_views_def tables_of_def)
  have h3: "relationships ex_views = Some [ex_fk]" by (simp add: ex_views_def)
  from h2 have h2': "\<forall>t \<in> set (tables_of ex_views). isView t" by (simp add: list_all_iff)
  show ?thesis
    using h1 h2 h2' h3 no_tables_or_only_views [of ex_no_tables] no_tables_or_only_views [of ex_views]
    by blast
qed

subsection \<open>C8: the unifier only overwrites field types\<close>

lemma table_attributes_erase: "table_attributes (erase_table_types t) = table_attributes t"
  by (simp add: table_attributes_def erase_table_types_def)

lemma field_attributes_erase:
  "map field_attributes (t_fields (erase_table_types t)) = map field_attributes (t_fields t)"
  by (simp add: erase_table_types_def erase_field_type_def field_attributes_def comp_def)

lemma same_erasure_same_attributes:
  assumes "map erase_table_types ts' = map erase_table_types ts"
  shows "map table_attributes ts' = map table_attributes ts"
    and "map (\<lambda>t. map field_attributes (t_fields t)) ts' = map (\<lambda>t. map field_attributes (t_fields t)) ts"
proof -
  have "map table_attributes (map erase_table_types ts') = map table_attributes (map erase_table_types ts)"
    using assms by simp
  then show "map table_attributes ts' = map table_attributes ts"
    by (simp add: comp_def table_attributes_erase)
  have "map (\<lambda>t. map field_attributes (t_fields t)) (map erase_table_types ts')
      = map (\<lambda>t. map field_attributes (t_fields t)) (map erase_table_types ts)"
    using assms by simp
  then show "map (\<lambda>t. map field_attributes (t_fields t)) ts'
      = map (\<lambda>t. map field_attributes (t_fields t)) ts"
    by (simp add: comp_def field_attributes_erase)
qed

lemma tables_align_None_iff: "(tables (alignForeignKeyDataTypes d) = None) = (tables d = None)"
  by (simp add: alignForeignKeyDataTypes_def split: option.splits)

text \<open>
  C8: after \<open>alignForeignKeyDataTypes\<close> the diagram is the one before up to the \<open>type\<close> of
  its fields. The relationships are unchanged; \<open>tables\<close> is absent after exactly when it
  was before; the tables are the same in number and order, each with its id, name, view
  flag and indexes; the fields of each table are the same in number and order, each with
  its id, name, \<open>characterMaximumLength\<close>, \<open>precision\<close>, \<open>scale\<close>, \<open>nullable\<close>,
  \<open>default\<close> and \<open>primaryKey\<close>. Nothing is added or removed.
\<close>

theorem unifier_changes_types_only:
  "erase_types (alignForeignKeyDataTypes d) = erase_types d \<and>
   relationships (alignForeignKeyDataTypes d) = relationships d \<and>
   (tables (alignForeignKeyDataTypes d) = None) = (tables d = None) \<and>
   map table_attributes (tables_of (alignForeignKeyDataTypes d)) =
     map table_attributes (tables_of d) \<and>
   map (\<lambda>table. map field_attributes (t_fields table)) (tables_of (alignForeignKeyDataTypes d)) =
     map (\<lambda>table. map field_attributes (t_fields table)) (tables_of d)"
  using same_erasure_same_attributes [OF tables_of_erase, of d]
  by (simp add: erase_alignForeignKeyDataTypes relationships_align tables_align_None_iff)

subsection \<open>C9: relationships that involve a view\<close>






subsection \<open>C10: a table without fields\<close>

lemma index_fieldNames_no_fields: "t_fields table = [] \<Longrightarrow> index_fieldNames table index = []"
proof -
  assume a: "t_fields table = []"
  have "filter_Boolean (map (\<lambda>fieldId. None) ids) = []" for ids :: "string list"
    by (induction ids) simp_all
  then show ?thesis
    by (simp add: index_fieldNames_def a)
qed

lemma emit_indexes_no_fields:
  "t_fields table = [] \<Longrightarrow> foldl (emit_index table) acc ixs = acc"
  by (induction ixs arbitrary: acc) (simp_all add: emit_index_def index_fieldNames_no_fields)

lemma emit_table_no_fields:
  "t_fields table = [] \<Longrightarrow>
     emit_table acc table = acc @ ''CREATE TABLE '' @ t_name table @ '' (\<newline>\<newline>);\<newline>\<newline>\<newline>''"
  by (simp add: emit_table_def emit_create_table_def emit_indexes_no_fields)

lemma unchanged_without_fields:
  assumes "erase_table_types t' = erase_table_types t" and "t_fields t = []"
  shows "t' = t"
proof -
  from assms(1) have "t_fields (erase_table_types t') = t_fields (erase_table_types t)"
    by simp
  with assms(2) have "map erase_field_type (t_fields t') = []"
    by (simp add: erase_table_types_def)
  then have "t_fields t' = []" by simp
  then have "t' = erase_table_types t'" by (simp add: erase_table_types_def)
  also have "\<dots> = erase_table_types t" by (rule assms(1))
  also have "\<dots> = t" using assms(2) by (simp add: erase_table_types_def)
  finally show ?thesis .
qed

lemma bare_table_kept:
  assumes "t \<in> set (tables_of d)" and "\<not> isView t" and "t_fields t = []"
  shows "t \<in> set (nonViewTables_of d)"
proof -
  from assms(1) obtain i where i: "i < length (tables_of d)" "tables_of d ! i = t"
    by (auto simp add: in_set_conv_nth)
  let ?ts' = "tables_of (alignForeignKeyDataTypes d)"
  have e: "map erase_table_types ?ts' = map erase_table_types (tables_of d)"
    by (rule tables_of_erase)
  then have len: "length ?ts' = length (tables_of d)" by (rule erase_length)
  have "erase_table_types (?ts' ! i) = erase_table_types (tables_of d ! i)"
    using e i(1) len by (metis nth_map)
  then have "?ts' ! i = t"
    using i(2) assms(3) unchanged_without_fields by blast
  then have "t \<in> set ?ts'"
    using i(1) len by (metis nth_mem)
  then show ?thesis
    using assms(2) by (simp add: nonViewTables_of_def)
qed

text \<open>
  C10: for a table whose \<open>fields\<close> is empty the \<open>CREATE TABLE\<close> statement is emitted
  with an empty column list, exactly \<open>CREATE TABLE <name> (\n\n);\n\n\<close>; and when such a
  table is a non-view table of the diagram, that statement is part of the script that
  \<open>exportBaseSQL\<close> returns.
\<close>

theorem empty_table_still_created:
  "(t_fields table = [] \<longrightarrow>
      emit_create_table acc table =
        acc @ ''CREATE TABLE '' @ t_name table @ '' (\<newline>\<newline>);\<newline>\<newline>'') \<and>
   (table \<in> set (tables_of d) \<and> \<not> isView table \<and> t_fields table = [] \<longrightarrow>
      (\<exists>before after. fst (exportBaseSQL d) =
         before @ ''CREATE TABLE '' @ t_name table @ '' (\<newline>\<newline>);\<newline>\<newline>'' @ after))"
proof (intro conjI impI)
  assume "t_fields table = []"
  then show "emit_create_table acc table =
        acc @ ''CREATE TABLE '' @ t_name table @ '' (\<newline>\<newline>);\<newline>\<newline>''"
    by (simp add: emit_create_table_def)
next
  assume a: "table \<in> set (tables_of d) \<and> \<not> isView table \<and> t_fields table = []"
  then have "table \<in> set (nonViewTables_of d)"
    by (simp add: bare_table_kept)
  then obtain xs ys where split: "nonViewTables_of d = xs @ table # ys"
    by (auto simp add: in_set_conv_decomp)
  have block: "emit_table [] table =
      ''CREATE TABLE '' @ t_name table @ '' (\<newline>\<newline>);\<newline>\<newline>'' @ ''\<newline>''"
    using a emit_table_no_fields [of table "[]"] by simp
  have "fst (exportBaseSQL d) =
      concat (map (emit_table []) xs) @
      ''CREATE TABLE '' @ t_name table @ '' (\<newline>\<newline>);\<newline>\<newline>'' @
      (''\<newline>'' @ concat (map (emit_table []) ys) @
       concat (map (emit_relationship (nonViewTables_of d) []) (relationships_of d)))"
    unfolding exportBaseSQL_sections split by (simp add: block)
  then show "\<exists>before after. fst (exportBaseSQL d) =
         before @ ''CREATE TABLE '' @ t_name table @ '' (\<newline>\<newline>);\<newline>\<newline>'' @ after"
    by blast
qed

theorem empty_table_still_created_witness:
  "t_fields ex_bare = [] \<and> ex_bare \<in> set (tables_of ex_bare_diagram) \<and> \<not> isView ex_bare \<and>
   emit_create_table [] ex_bare = ''CREATE TABLE audit (\<newline>\<newline>);\<newline>\<newline>'' \<and>
   (\<exists>before after. fst (exportBaseSQL ex_bare_diagram) =
      before @ ''CREATE TABLE audit (\<newline>\<newline>);\<newline>\<newline>'' @ after)"
proof -
  have h1: "t_fields ex_bare = []" by (simp add: ex_bare_def)
  have h2: "ex_bare \<in> set (tables_of ex_bare_diagram)"
    by (simp add: ex_bare_diagram_def tables_of_def)
  have h3: "\<not> isView ex_bare" by (simp add: ex_bare_def)
  have n: "t_name ex_bare = ''audit''" by (simp add: ex_bare_def)
  show ?thesis
    using h1 h2 h3 empty_table_still_created [of ex_bare "[]" ex_bare_diagram]
    by (simp add: n)
qed

end
